theory Spec2Isabelle
  imports Complex_Main
begin

section \<open>Data model: the road network as a directed multigraph\<close>

text \<open>
  The road network is a networkx \<open>MultiDiGraph\<close>. Nodes are OSM identifiers carrying the
  attributes \<open>x\<close> (longitude) and \<open>y\<close> (latitude); an edge is identified by
  \<open>(u, v, key)\<close> and carries an attribute dictionary, of which the program reads
  \<open>length\<close>, \<open>highway\<close> and \<open>geometry\<close>. Each of them may be absent
  (\<open>edge_data.get('length', ...)\<close>, \<open>'geometry' in edge_data\<close>), hence the options.
  The value of \<open>highway\<close> is a string or a list of strings
  (\<open>isinstance(highway, list)\<close> in \<open>road_network.py\<close>).
  Edges are kept in insertion order, the order in which \<open>graph[u][v].values()\<close> and
  \<open>graph.edges\<close> iterate; in networkx an identifier is a key of nested dictionaries
  and so occurs once. Python floats are modelled as reals.
\<close>

type_synonym node = int
type_synonym edge_key = int
type_synonym edge_id = "node \<times> node \<times> edge_key"

datatype highway_val = HwStr string | HwList "string list"

record edge_data =
  e_length :: "real option"
  e_highway :: "highway_val option"
  e_geometry :: "(real \<times> real) list option"

record graph =
  g_nodes :: "(node \<times> real \<times> real) list"
  g_edges :: "(edge_id \<times> edge_data) list"

datatype error = KeyError | ValueError | NetworkXNoPath | NodeNotFound

definition has_edge :: "graph \<Rightarrow> node \<Rightarrow> node \<Rightarrow> edge_key \<Rightarrow> bool" where
  "has_edge g u v k = ((u, v, k) \<in> set (map fst (g_edges g)))"

text \<open>
  \<open>remove_edge(u, v, key)\<close>; networkx raises when the edge is absent, and every call in
  the program is guarded by \<open>has_edge\<close>, so that branch is never taken.
\<close>

definition remove_edge :: "graph \<Rightarrow> node \<Rightarrow> node \<Rightarrow> edge_key \<Rightarrow> graph" where
  "remove_edge g u v k = g\<lparr>g_edges := filter (\<lambda>e. fst e \<noteq> (u, v, k)) (g_edges g)\<rparr>"

text \<open>\<open>graph[u][v]\<close>: the parallel edges from \<open>u\<close> to \<open>v\<close>, as pairs of key and data.\<close>

definition adj :: "graph \<Rightarrow> node \<Rightarrow> node \<Rightarrow> (edge_key \<times> edge_data) list" where
  "adj g u v = map (\<lambda>e. (snd (snd (fst e)), snd e))
                   (filter (\<lambda>e. fst (fst e) = u \<and> fst (snd (fst e)) = v) (g_edges g))"

definition adj_values :: "graph \<Rightarrow> node \<Rightarrow> node \<Rightarrow> edge_data list" where
  "adj_values g u v = map snd (adj g u v)"

section \<open>Route metrics (\<open>pathfinding.calculate_route_metrics\<close>)\<close>

text \<open>
  The key of \<open>min\<close> is \<open>x.get('length', float('inf'))\<close>: \<open>None\<close> stands for infinity.
\<close>

definition length_key :: "edge_data \<Rightarrow> real option" where
  "length_key x = e_length x"

fun key_lt :: "real option \<Rightarrow> real option \<Rightarrow> bool" where
  "key_lt (Some a) (Some b) = (a < b)"
| "key_lt (Some a) None = True"
| "key_lt None b = False"

text \<open>
  Python's \<open>min(iterable, key=...)\<close> keeps the first element whose key is smallest: the
  running best is replaced only by an element with a strictly smaller key.
\<close>

fun py_min_from :: "('a \<Rightarrow> real option) \<Rightarrow> 'a \<Rightarrow> 'a list \<Rightarrow> 'a" where
  "py_min_from key best [] = best"
| "py_min_from key best (x # xs) =
     py_min_from key (if key_lt (key x) (key best) then x else best) xs"

text \<open>
  \<open>min(graph[u][v].values(), key=...)\<close>; \<open>graph[u][v]\<close> raises \<open>KeyError\<close> when no
  edge joins \<open>u\<close> to \<open>v\<close>.
\<close>

definition select_edge :: "graph \<Rightarrow> node \<Rightarrow> node \<Rightarrow> error + edge_data" where
  "select_edge g u v =
     (case adj_values g u v of
        [] \<Rightarrow> Inl KeyError
      | x # xs \<Rightarrow> Inr (py_min_from length_key x xs))"

definition get_length :: "edge_data \<Rightarrow> real" where
  "get_length d = (case e_length d of None \<Rightarrow> 0 | Some l \<Rightarrow> l)"

definition get_highway :: "edge_data \<Rightarrow> highway_val" where
  "get_highway d = (case e_highway d of None \<Rightarrow> HwStr [] | Some h \<Rightarrow> h)"

definition speed_of :: "edge_data \<Rightarrow> real" where
  "speed_of d =
     (if get_highway d \<in> set [HwStr ''motorway'', HwStr ''trunk'', HwStr ''primary'']
      then 80 else 60)"

text \<open>One iteration of the loop over \<open>range(len(route) - 1)\<close>.\<close>

definition metrics_step ::
  "graph \<Rightarrow> node \<Rightarrow> node \<Rightarrow> real \<times> real \<Rightarrow> error + (real \<times> real)" where
  "metrics_step g u v acc =
     (case select_edge g u v of
        Inl e \<Rightarrow> Inl e
      | Inr d \<Rightarrow>
          Inr (fst acc + get_length d, snd acc + (get_length d / 1000) / speed_of d))"

fun metrics_loop :: "graph \<Rightarrow> node list \<Rightarrow> real \<times> real \<Rightarrow> error + (real \<times> real)" where
  "metrics_loop g (u # v # rest) acc =
     (case metrics_step g u v acc of
        Inl e \<Rightarrow> Inl e
      | Inr acc' \<Rightarrow> metrics_loop g (v # rest) acc')"
| "metrics_loop g route acc = Inr acc"

definition calculate_route_metrics :: "graph \<Rightarrow> node list \<Rightarrow> error + (real \<times> real)" where
  "calculate_route_metrics g route =
     (case metrics_loop g route (0, 0) of
        Inl e \<Rightarrow> Inl e
      | Inr acc \<Rightarrow> Inr (fst acc / 1000, snd acc * 60))"


section \<open>Library interfaces\<close>

text \<open>
  \<open>osmnx.distance.nearest_nodes\<close> and \<open>networkx.shortest_path\<close> are library functions;
  \<open>find_routes\<close> is modelled for any pair of functions, and the properties below assume
  only what the libraries document (see \<open>nn_contract\<close> and \<open>sp_contract\<close>).
  An exception raised by either is the \<open>Inl\<close> result.
\<close>

type_synonym nearest_nodes_fn = "graph \<Rightarrow> real \<Rightarrow> real \<Rightarrow> error + node"
type_synonym shortest_path_fn = "graph \<Rightarrow> node \<Rightarrow> node \<Rightarrow> error + node list"

text \<open>\<open>ox.distance.nearest_nodes(graph, lon, lat)\<close>: longitude first.\<close>

definition find_nearest_node :: "nearest_nodes_fn \<Rightarrow> graph \<Rightarrow> real \<Rightarrow> real \<Rightarrow> error + node" where
  "find_nearest_node nearest_nodes g lat lon = nearest_nodes g lon lat"

section \<open>Graph objects\<close>

text \<open>
  A graph is a mutable object. The store holds the graph objects; a reference is an index
  into it. \<open>graph.copy()\<close> allocates a new object with the same nodes and edges, and
  \<open>remove_edge\<close> changes the object it is called on.
\<close>

type_synonym heap = "graph list"

definition copy_graph :: "heap \<Rightarrow> nat \<Rightarrow> heap \<times> nat" where
  "copy_graph h a = (h @ [h ! a], length h)"

definition remove_edge_at :: "heap \<Rightarrow> nat \<Rightarrow> node \<Rightarrow> node \<Rightarrow> edge_key \<Rightarrow> heap" where
  "remove_edge_at h a u v k = h[a := remove_edge (h ! a) u v k]"

section \<open>Route search (\<open>pathfinding.find_routes\<close>)\<close>

record route =
  r_name :: string
  r_path :: "node list"
  r_distance_km :: real
  r_time_min :: real
  r_color :: string
  r_type :: string

text \<open>The body of \<open>for u, v, key in blocked_edges\<close>, on the object \<open>graph_clean\<close>.\<close>

fun block_step :: "nat \<Rightarrow> edge_id \<Rightarrow> heap \<times> nat \<Rightarrow> heap \<times> nat" where
  "block_step graph_clean (u, v, key) (h, removed) =
     (let (h1, removed1) =
            (if has_edge (h ! graph_clean) u v key
             then (remove_edge_at h graph_clean u v key, removed + 1)
             else (h, removed))
      in if has_edge (h1 ! graph_clean) v u key
         then (remove_edge_at h1 graph_clean v u key, removed1 + 1)
         else (h1, removed1))"

text \<open>
  The body of the loop over the middle of the path: \<open>has_edge(u, v)\<close> without a key asks
  for any parallel edge, and every key of \<open>graph_alt[u][v]\<close> is removed.
\<close>

definition alt_step :: "nat \<Rightarrow> node list \<Rightarrow> nat \<Rightarrow> heap \<Rightarrow> heap" where
  "alt_step graph_alt path i h =
     (let u = path ! i; v = path ! (i + 1)
      in if adj (h ! graph_alt) u v \<noteq> []
         then fold (\<lambda>key h'. remove_edge_at h' graph_alt u v key)
                   (map fst (adj (h ! graph_alt) u v)) h
         else h)"

text \<open>The body of the first \<open>try\<close>: the path, and the list \<open>routes\<close> with the fastest route.\<close>

definition primary_try ::
  "shortest_path_fn \<Rightarrow> graph \<Rightarrow> node \<Rightarrow> node \<Rightarrow> error + (node list \<times> route list)" where
  "primary_try shortest_path graph_clean start_node end_node =
     (case shortest_path graph_clean start_node end_node of
        Inl e \<Rightarrow> Inl e
      | Inr path \<Rightarrow>
          (case calculate_route_metrics graph_clean path of
             Inl e \<Rightarrow> Inl e
           | Inr m \<Rightarrow>
               Inr (path,
                    [\<lparr>r_name = ''Fastest Route'', r_path = path, r_distance_km = fst m,
                      r_time_min = snd m, r_color = ''#00c853'', r_type = ''fastest''\<rparr>])))"

text \<open>The body of the second \<open>try\<close>: \<open>routes\<close>, with the alternative appended if kept.\<close>

definition alternative_try ::
  "shortest_path_fn \<Rightarrow> graph \<Rightarrow> graph \<Rightarrow> node \<Rightarrow> node \<Rightarrow> node list \<Rightarrow> route list
     \<Rightarrow> error + route list" where
  "alternative_try shortest_path graph_clean graph_alt start_node end_node path routes =
     (case shortest_path graph_alt start_node end_node of
        Inl e \<Rightarrow> Inl e
      | Inr alt_path \<Rightarrow>
          if alt_path \<noteq> path then
            (case calculate_route_metrics graph_clean alt_path of
               Inl e \<Rightarrow> Inl e
             | Inr m \<Rightarrow>
                 Inr (routes @
                      [\<lparr>r_name = ''Alternative Route'', r_path = alt_path,
                        r_distance_km = fst m, r_time_min = snd m, r_color = ''#ffa726'',
                        r_type = ''alternative''\<rparr>]))
          else Inr routes)"

text \<open>
  \<open>find_routes\<close> takes the store and the reference of the road network, and returns the
  store it leaves behind with its result: the list of routes, or the exception that escapes
  (only \<open>NetworkXNoPath\<close> is caught). The message it prints is left out.
\<close>

definition find_routes ::
  "nearest_nodes_fn \<Rightarrow> shortest_path_fn \<Rightarrow> heap \<Rightarrow> nat \<Rightarrow> real \<Rightarrow> real \<Rightarrow> real \<Rightarrow> real
     \<Rightarrow> edge_id list \<Rightarrow> heap \<times> (error + route list)" where
  "find_routes nearest_nodes shortest_path h graph start_lat start_lon end_lat end_lon
       blocked_edges =
     (case find_nearest_node nearest_nodes (h ! graph) start_lat start_lon of
        Inl e \<Rightarrow> (h, Inl e)
      | Inr start_node \<Rightarrow>
     (case find_nearest_node nearest_nodes (h ! graph) end_lat end_lon of
        Inl e \<Rightarrow> (h, Inl e)
      | Inr end_node \<Rightarrow>
          let (h1, graph_clean) = copy_graph h graph;
              (h2, removed) = fold (block_step graph_clean) blocked_edges (h1, 0)
          in (case primary_try shortest_path (h2 ! graph_clean) start_node end_node of
                Inl NetworkXNoPath \<Rightarrow> (h2, Inr [])
              | Inl e \<Rightarrow> (h2, Inl e)
              | Inr (path, routes) \<Rightarrow>
                  if length path > 10 then
                    let (h3, graph_alt) = copy_graph h2 graph_clean;
                        mid_start = length path div 3;
                        mid_end = 2 * length path div 3;
                        h4 = fold (alt_step graph_alt path)
                                  [mid_start ..< min mid_end (length path - 1)] h3
                    in (h4,
                        case alternative_try shortest_path (h4 ! graph_clean) (h4 ! graph_alt)
                               start_node end_node path routes of
                          Inl NetworkXNoPath \<Rightarrow> Inr routes
                        | Inl e \<Rightarrow> Inl e
                        | Inr routes' \<Rightarrow> Inr routes')
                  else (h2, Inr routes))))"


text \<open>
  The object \<open>graph_clean\<close> once the loop over \<open>blocked_edges\<close> is done, and the object
  \<open>graph_alt\<close> once the loop over the middle of the path is done.
\<close>

definition working_graph :: "heap \<Rightarrow> nat \<Rightarrow> edge_id list \<Rightarrow> graph" where
  "working_graph h graph blocked_edges =
     (let (h1, graph_clean) = copy_graph h graph;
          (h2, removed) = fold (block_step graph_clean) blocked_edges (h1, 0)
      in h2 ! graph_clean)"

definition alt_graph :: "graph \<Rightarrow> node list \<Rightarrow> graph" where
  "alt_graph g path =
     (let (h3, graph_alt) = copy_graph [g] 0;
          mid_start = length path div 3;
          mid_end = 2 * length path div 3;
          h4 = fold (alt_step graph_alt path)
                    [mid_start ..< min mid_end (length path - 1)] h3
      in h4 ! graph_alt)"

section \<open>Notions used to state the properties\<close>

definition node_ids :: "graph \<Rightarrow> node set" where
  "node_ids g = set (map fst (g_nodes g))"

definition rev_id :: "edge_id \<Rightarrow> edge_id" where
  "rev_id e = (fst (snd e), fst e, snd (snd e))"

text \<open>A graph without the edges whose identifier is in a set, or that join a pair of nodes.\<close>

definition without :: "graph \<Rightarrow> edge_id set \<Rightarrow> graph" where
  "without g S = g\<lparr>g_edges := filter (\<lambda>e. fst e \<notin> S) (g_edges g)\<rparr>"

definition without_pair :: "graph \<Rightarrow> node \<Rightarrow> node \<Rightarrow> graph" where
  "without_pair g u v =
     g\<lparr>g_edges := filter (\<lambda>e. \<not> (fst (fst e) = u \<and> fst (snd (fst e)) = v)) (g_edges g)\<rparr>"

definition pairs :: "'a list \<Rightarrow> ('a \<times> 'a) list" where
  "pairs xs = zip xs (tl xs)"

text \<open>A node sequence is a walk when an edge joins each node to the next.\<close>

fun walk :: "graph \<Rightarrow> node list \<Rightarrow> bool" where
  "walk g (u # v # rest) = (adj_values g u v \<noteq> [] \<and> walk g (v # rest))"
| "walk g route = True"

definition is_route :: "graph \<Rightarrow> node \<Rightarrow> node \<Rightarrow> node list \<Rightarrow> bool" where
  "is_route g s t p = (p \<noteq> [] \<and> hd p = s \<and> last p = t \<and> walk g p)"

text \<open>
  What is assumed of \<open>networkx.shortest_path\<close>: a returned path leads from the source to
  the target along edges of the graph, and the only exceptions are \<open>NetworkXNoPath\<close> and,
  for a node that is not in the graph, \<open>NodeNotFound\<close>. That the path is a shortest one is
  not needed below.
\<close>

definition sp_contract :: "shortest_path_fn \<Rightarrow> bool" where
  "sp_contract sp =
     (\<forall>g s t. case sp g s t of
                 Inr p \<Rightarrow> is_route g s t p
               | Inl e \<Rightarrow> e = NetworkXNoPath \<or>
                          (e = NodeNotFound \<and> (s \<notin> node_ids g \<or> t \<notin> node_ids g)))"

text \<open>What is assumed of \<open>nearest_nodes\<close>: the node it returns is a node of the graph.\<close>

definition nn_contract :: "nearest_nodes_fn \<Rightarrow> bool" where
  "nn_contract nn = (\<forall>g x y n. nn g x y = Inr n \<longrightarrow> n \<in> node_ids g)"


definition key_le :: "real option \<Rightarrow> real option \<Rightarrow> bool" where
  "key_le a b = (\<not> key_lt b a)"



text \<open>The edges that \<open>calculate_route_metrics\<close> selects along a route, in order.\<close>

definition chosen_edges :: "graph \<Rightarrow> node list \<Rightarrow> edge_data list" where
  "chosen_edges g route =
     concat (map (\<lambda>p. case select_edge g (fst p) (snd p) of Inl e \<Rightarrow> [] | Inr d \<Rightarrow> [d])
                 (pairs route))"

section \<open>Reference implementations of the library functions\<close>

text \<open>
  A nearest-node search by squared Euclidean distance and a shortest-path search by
  enumeration of the walks that stop at the target, with the weight networkx gives a pair of
  nodes of a multigraph (the least \<open>length\<close> of the parallel edges, 1 where it is absent).
  They show that the contracts can be met and let the model run on examples.
\<close>

definition dist2 :: "node \<times> real \<times> real \<Rightarrow> real \<Rightarrow> real \<Rightarrow> real" where
  "dist2 n x y = (fst (snd n) - x)\<^sup>2 + (snd (snd n) - y)\<^sup>2"

definition ref_nearest_nodes :: nearest_nodes_fn where
  "ref_nearest_nodes g x y =
     (case g_nodes g of
        [] \<Rightarrow> Inl ValueError
      | n # ns \<Rightarrow>
          Inr (fst (fold (\<lambda>c best. if dist2 c x y < dist2 best x y then c else best) ns n)))"

definition successors :: "graph \<Rightarrow> node \<Rightarrow> node list" where
  "successors g u =
     remdups (map (\<lambda>e. fst (snd (fst e))) (filter (\<lambda>e. fst (fst e) = u) (g_edges g)))"

fun walks_to :: "nat \<Rightarrow> graph \<Rightarrow> node \<Rightarrow> node \<Rightarrow> node list list" where
  "walks_to 0 g t u = (if u = t then [[u]] else [])"
| "walks_to (Suc n) g t u =
     (if u = t then [[u]]
      else concat (map (\<lambda>v. map ((#) u) (walks_to n g t v)) (successors g u)))"

definition edge_weight :: "graph \<Rightarrow> node \<Rightarrow> node \<Rightarrow> real" where
  "edge_weight g u v =
     (case map (\<lambda>d. case e_length d of None \<Rightarrow> 1 | Some l \<Rightarrow> l) (adj_values g u v) of
        [] \<Rightarrow> 0
      | w # ws \<Rightarrow> fold min ws w)"

definition walk_cost :: "graph \<Rightarrow> node list \<Rightarrow> real" where
  "walk_cost g p = sum_list (map (\<lambda>e. edge_weight g (fst e) (snd e)) (pairs p))"

definition ref_shortest_path :: shortest_path_fn where
  "ref_shortest_path g s t =
     (if s \<notin> node_ids g \<or> t \<notin> node_ids g then Inl NodeNotFound
      else case walks_to (length (g_nodes g)) g t s of
             [] \<Rightarrow> Inl NetworkXNoPath
           | w # ws \<Rightarrow> Inr (py_min_from (\<lambda>p. Some (walk_cost g p)) w ws))"

section \<open>Example networks\<close>

definition road :: "real option \<Rightarrow> string \<Rightarrow> edge_data" where
  "road l c = \<lparr>e_length = l, e_highway = Some (HwStr c), e_geometry = None\<rparr>"

text \<open>
  The square of the specification: four nodes, each side a two-way street of 1000 m of
  class secondary.
\<close>

definition square :: graph where
  "square =
     \<lparr>g_nodes = [(1, 0, 0), (2, 1, 0), (3, 1, 1), (4, 0, 1)],
      g_edges = [((1, 2, 0), road (Some 1000) ''secondary''),
                 ((2, 1, 0), road (Some 1000) ''secondary''),
                 ((2, 3, 0), road (Some 1000) ''secondary''),
                 ((3, 2, 0), road (Some 1000) ''secondary''),
                 ((3, 4, 0), road (Some 1000) ''secondary''),
                 ((4, 3, 0), road (Some 1000) ''secondary''),
                 ((4, 1, 0), road (Some 1000) ''secondary''),
                 ((1, 4, 0), road (Some 1000) ''secondary'')]\<rparr>"

text \<open>
  Parallel edges of different lengths and classes from 1 to 2; from 2 to 3 an edge
  without a length followed by one of length zero; from 3 to 4 a single edge without a length.
\<close>

definition parallel_net :: graph where
  "parallel_net =
     \<lparr>g_nodes = [(1, 0, 0), (2, 1, 0), (3, 2, 0), (4, 3, 0)],
      g_edges = [((1, 2, 0), road (Some 500) ''secondary''),
                 ((1, 2, 1), road (Some 300) ''primary''),
                 ((2, 3, 0), road None ''residential''),
                 ((2, 3, 1), road (Some 0) ''trunk''),
                 ((3, 4, 0), road None ''residential'')]\<rparr>"

text \<open>
  A one-way street of eleven nodes with a longer way round its middle, through node 12.
\<close>

definition detour :: graph where
  "detour =
     \<lparr>g_nodes = [(1, 1, 0), (2, 2, 0), (3, 3, 0), (4, 4, 0), (5, 5, 0), (6, 6, 0), (7, 7, 0),
                 (8, 8, 0), (9, 9, 0), (10, 10, 0), (11, 11, 0), (12, 6, 1)],
      g_edges = [((1, 2, 0), road (Some 100) ''residential''),
                 ((2, 3, 0), road (Some 100) ''residential''),
                 ((3, 4, 0), road (Some 100) ''residential''),
                 ((4, 5, 0), road (Some 100) ''residential''),
                 ((5, 6, 0), road (Some 100) ''residential''),
                 ((6, 7, 0), road (Some 100) ''residential''),
                 ((7, 8, 0), road (Some 100) ''residential''),
                 ((8, 9, 0), road (Some 100) ''residential''),
                 ((9, 10, 0), road (Some 100) ''residential''),
                 ((10, 11, 0), road (Some 100) ''residential''),
                 ((4, 12, 0), road (Some 500) ''primary''),
                 ((12, 8, 0), road (Some 500) ''primary'')]\<rparr>"


text \<open>
  The primary path in \<open>detour\<close>, and two search functions that do not meet the contract
  of \<open>shortest_path\<close>: one returns a fixed path whatever the graph; the other returns the
  primary path while the edge \<open>(4, 5, 0)\<close> is there and the path \<open>[4, 5]\<close> once it is
  removed.
\<close>

definition detour_path :: "node list" where
  "detour_path = [1, 2, 3, 4, 5, 6, 7, 8, 9, 10, 11]"

definition fixed_search :: "node list \<Rightarrow> shortest_path_fn" where
  "fixed_search p g s t = Inr p"

definition probe_search :: shortest_path_fn where
  "probe_search g s t =
     (if has_edge g 4 5 0 then Inr [1, 2, 3, 4, 5, 6, 7, 8, 9, 10, 11] else Inr [4, 5])"

section \<open>Damage simulation (\<open>AmbulanceApp.block_roads\<close> in \<open>main.py\<close>)\<close>

text \<open>
  The fields of the application that \<open>block_roads\<close> writes: the blocked edges, the geometry
  of the blocked forward edges, and one record for each impact.
\<close>

record impact_zone =
  z_lat :: real
  z_lon :: real
  roads_damaged :: nat

record app_state =
  blocked_edges :: "edge_id list"
  blocked_edges_coords :: "(real \<times> real) list list"
  impact_zones :: "impact_zone list"

text \<open>\<open>graph.nodes[u]\<close>: the attributes \<open>(x, y)\<close> of a node, \<open>KeyError\<close> for an unknown node.\<close>

definition node_attr :: "graph \<Rightarrow> node \<Rightarrow> error + (real \<times> real)" where
  "node_attr g u = (case map_of (g_nodes g) u of None \<Rightarrow> Inl KeyError | Some xy \<Rightarrow> Inr xy)"

text \<open>\<open>road_network.get_edge_geometry\<close>: points as (latitude, longitude).\<close>

fun get_edge_geometry :: "graph \<Rightarrow> edge_id \<Rightarrow> error + (real \<times> real) list" where
  "get_edge_geometry g (u, v, key) =
     (case map_of (g_edges g) (u, v, key) of
        None \<Rightarrow> Inl KeyError
      | Some edge_data \<Rightarrow>
          (case e_geometry edge_data of
             Some coords \<Rightarrow> Inr (map (\<lambda>p. (snd p, fst p)) coords)
           | None \<Rightarrow>
               (case node_attr g u of
                  Inl e \<Rightarrow> Inl e
                | Inr pu \<Rightarrow>
                    (case node_attr g v of
                       Inl e \<Rightarrow> Inl e
                     | Inr pv \<Rightarrow> Inr [(snd pu, fst pu), (snd pv, fst pv)]))))"

text \<open>The distance, in degrees, from the midpoint of an edge to the impact.\<close>

fun edge_distance :: "graph \<Rightarrow> edge_id \<Rightarrow> real \<Rightarrow> real \<Rightarrow> error + real" where
  "edge_distance g (u, v, key) impact_lat impact_lon =
     (case node_attr g u of
        Inl e \<Rightarrow> Inl e
      | Inr pu \<Rightarrow>
          (case node_attr g v of
             Inl e \<Rightarrow> Inl e
           | Inr pv \<Rightarrow>
               let mid_lat = (snd pu + snd pv) / 2;
                   mid_lon = (fst pu + fst pv) / 2
               in Inr (sqrt ((mid_lat - impact_lat)\<^sup>2 + (mid_lon - impact_lon)\<^sup>2))))"

text \<open>The loop that collects \<open>nearby\<close>: blocked edges are skipped, the radius is 0.008.\<close>

fun nearby_loop ::
  "graph \<Rightarrow> edge_id list \<Rightarrow> real \<Rightarrow> real \<Rightarrow> edge_id list \<Rightarrow> (edge_id \<times> real) list
     \<Rightarrow> error + (edge_id \<times> real) list" where
  "nearby_loop g blocked impact_lat impact_lon [] nearby = Inr nearby"
| "nearby_loop g blocked impact_lat impact_lon (edge # rest) nearby =
     (if edge \<in> set blocked then nearby_loop g blocked impact_lat impact_lon rest nearby
      else
        (case edge_distance g edge impact_lat impact_lon of
           Inl e \<Rightarrow> Inl e
         | Inr distance \<Rightarrow>
             nearby_loop g blocked impact_lat impact_lon rest
               (if distance \<le> 8 / 1000 then nearby @ [(edge, distance)] else nearby)))"

text \<open>
  The body of the loop over the selected edges: the forward direction, then the reverse one
  if the network has it. The state comes with the running \<open>blocked_count\<close>.
\<close>

fun block_edge :: "graph \<Rightarrow> edge_id \<Rightarrow> app_state \<times> nat \<Rightarrow> error + (app_state \<times> nat)" where
  "block_edge g (u, v, key) (st, blocked_count) =
     (case (if (u, v, key) \<notin> set (blocked_edges st) then
              (case get_edge_geometry g (u, v, key) of
                 Inl e \<Rightarrow> Inl e
               | Inr coords \<Rightarrow>
                   Inr (st\<lparr>blocked_edges := blocked_edges st @ [(u, v, key)],
                           blocked_edges_coords := blocked_edges_coords st @ [coords]\<rparr>,
                        blocked_count + 1))
            else Inr (st, blocked_count)) of
        Inl e \<Rightarrow> Inl e
      | Inr (st1, count1) \<Rightarrow>
          if has_edge g v u key \<and> (v, u, key) \<notin> set (blocked_edges st1)
          then Inr (st1\<lparr>blocked_edges := blocked_edges st1 @ [(v, u, key)]\<rparr>, count1 + 1)
          else Inr (st1, count1))"

fun block_selected ::
  "graph \<Rightarrow> edge_id list \<Rightarrow> app_state \<times> nat \<Rightarrow> error + (app_state \<times> nat)" where
  "block_selected g [] s = Inr s"
| "block_selected g (edge # rest) s =
     (case block_edge g edge s of
        Inl e \<Rightarrow> Inl e
      | Inr s' \<Rightarrow> block_selected g rest s')"

text \<open>
  One impact. The number \<open>k\<close> is the value of \<open>random.randint(2, 4)\<close> drawn for it;
  \<open>list.sort\<close> is stable, as \<open>sort_key\<close> is.
\<close>

definition select_nearest :: "nat \<Rightarrow> (edge_id \<times> real) list \<Rightarrow> edge_id list" where
  "select_nearest k nearby = map fst (take k (sort_key snd nearby))"

fun process_impact ::
  "graph \<Rightarrow> edge_id list \<Rightarrow> (real \<times> real) \<times> nat \<Rightarrow> app_state \<Rightarrow> error + app_state" where
  "process_impact g major_road_edges ((impact_lat, impact_lon), k) st =
     (case nearby_loop g (blocked_edges st) impact_lat impact_lon major_road_edges [] of
        Inl e \<Rightarrow> Inl e
      | Inr nearby \<Rightarrow>
          (case block_selected g (select_nearest k nearby) (st, 0) of
             Inl e \<Rightarrow> Inl e
           | Inr (st', blocked_count) \<Rightarrow>
               Inr (st'\<lparr>impact_zones := impact_zones st' @
                      [\<lparr>z_lat = impact_lat, z_lon = impact_lon,
                        roads_damaged = blocked_count\<rparr>]\<rparr>)))"

fun impacts_loop ::
  "graph \<Rightarrow> edge_id list \<Rightarrow> ((real \<times> real) \<times> nat) list \<Rightarrow> app_state \<Rightarrow> error + app_state" where
  "impacts_loop g major_road_edges [] st = Inr st"
| "impacts_loop g major_road_edges (imp # rest) st =
     (case process_impact g major_road_edges imp st of
        Inl e \<Rightarrow> Inl e
      | Inr st' \<Rightarrow> impacts_loop g major_road_edges rest st')"

text \<open>
  \<open>block_roads\<close> up to the record of the last impact; \<open>impacts\<close> are the random impact
  points, each with its \<open>k\<close>. What follows in the source recomputes the routes and draws
  the map.
\<close>

definition block_roads ::
  "graph \<Rightarrow> edge_id list \<Rightarrow> ((real \<times> real) \<times> nat) list \<Rightarrow> app_state \<Rightarrow> error + app_state" where
  "block_roads g major_road_edges impacts st =
     (if major_road_edges = [] then Inr st
      else impacts_loop g major_road_edges impacts
             (st\<lparr>blocked_edges := [], blocked_edges_coords := [], impact_zones := []\<rparr>))"

text \<open>
  The edges handed to \<open>block_roads\<close> are edges of the network between known nodes, as
  \<open>get_major_road_edges\<close> returns them.
\<close>

definition has_edge_id :: "graph \<Rightarrow> edge_id \<Rightarrow> bool" where
  "has_edge_id g e = has_edge g (fst e) (fst (snd e)) (snd (snd e))"

definition major_ok :: "graph \<Rightarrow> edge_id list \<Rightarrow> bool" where
  "major_ok g major =
     (\<forall>e \<in> set major. has_edge_id g e \<and> fst e \<in> node_ids g \<and> fst (snd e) \<in> node_ids g)"

text \<open>The edge directions an impact can block: the selected edges and their reverses in the network.\<close>

definition directions :: "graph \<Rightarrow> edge_id list \<Rightarrow> edge_id set" where
  "directions g sel = set sel \<union> {e \<in> rev_id ` set sel. has_edge_id g e}"

text \<open>Three major edges of the square, and the state before any damage.\<close>

definition square_major :: "edge_id list" where
  "square_major = [(1, 2, 0), (3, 4, 0), (2, 1, 0)]"

definition fresh_state :: app_state where
  "fresh_state = \<lparr>blocked_edges = [], blocked_edges_coords = [], impact_zones = []\<rparr>"

section \<open>Properties of the route metrics\<close>

lemma pairs_simps [simp]:
  "pairs [] = []" "pairs [x] = []" "pairs (x # y # zs) = (x, y) # pairs (y # zs)"
  by (simp_all add: pairs_def)

lemma key_lt_irrefl [simp]: "\<not> key_lt a a"
  by (cases a) auto

lemma key_le_refl [simp]: "key_le a a"
  by (simp add: key_le_def)

lemma key_le_trans: "key_le a b \<Longrightarrow> key_le b c \<Longrightarrow> key_le a c"
  unfolding key_le_def by (cases a; cases b; cases c) auto

lemma key_lt_imp_le: "key_lt a b \<Longrightarrow> key_le a b"
  unfolding key_le_def by (cases a; cases b) auto

lemma py_min_from_mem: "py_min_from key b xs \<in> set (b # xs)"
  by (induction xs arbitrary: b) (auto split: if_splits)

lemma py_min_from_le_best: "key_le (key (py_min_from key b xs)) (key b)"
proof (induction xs arbitrary: b)
  case Nil
  show ?case by simp
next
  case (Cons x xs)
  show ?case
  proof (cases "key_lt (key x) (key b)")
    case True
    then show ?thesis
      using Cons.IH [of x] by (auto intro: key_le_trans key_lt_imp_le)
  next
    case False
    then show ?thesis using Cons.IH [of b] by simp
  qed
qed

lemma py_min_from_least:
  "y \<in> set (b # xs) \<Longrightarrow> key_le (key (py_min_from key b xs)) (key y)"
proof (induction xs arbitrary: b)
  case Nil
  then show ?case by simp
next
  case (Cons x xs)
  show ?case
  proof (cases "key_lt (key x) (key b)")
    case True
    have "y = b \<or> y \<in> set (x # xs)" using Cons.prems by auto
    then show ?thesis
    proof
      assume "y = b"
      have "key_le (key (py_min_from key x xs)) (key x)" by (rule py_min_from_le_best)
      with True \<open>y = b\<close> show ?thesis
        by (auto intro: key_le_trans key_lt_imp_le)
    next
      assume "y \<in> set (x # xs)"
      with True Cons.IH [of x] show ?thesis by simp
    qed
  next
    case False
    have "y = x \<or> y \<in> set (b # xs)" using Cons.prems by auto
    then show ?thesis
    proof
      assume "y = x"
      have "key_le (key (py_min_from key b xs)) (key b)" by (rule py_min_from_le_best)
      moreover have "key_le (key b) (key x)" using False by (simp add: key_le_def)
      ultimately show ?thesis using False \<open>y = x\<close> by (auto intro: key_le_trans)
    next
      assume "y \<in> set (b # xs)"
      with False Cons.IH [of b] show ?thesis by simp
    qed
  qed
qed




lemma walk_select: "adj_values g u v \<noteq> [] \<Longrightarrow> \<exists>d. select_edge g u v = Inr d"
  by (cases "adj_values g u v") (simp_all add: select_edge_def)

lemma metrics_loop_sum:
  "walk g route \<Longrightarrow>
   metrics_loop g route acc =
     Inr (fst acc + sum_list (map get_length (chosen_edges g route)),
          snd acc + sum_list (map (\<lambda>d. (get_length d / 1000) / speed_of d) (chosen_edges g route)))"
proof (induction g route acc rule: metrics_loop.induct)
  case (1 g u v rest acc)
  from "1.prems" have ne: "adj_values g u v \<noteq> []" and w: "walk g (v # rest)" by simp_all
  from walk_select [OF ne] obtain d where d: "select_edge g u v = Inr d" by blast
  let ?acc' = "(fst acc + get_length d, snd acc + (get_length d / 1000) / speed_of d)"
  have step: "metrics_step g u v acc = Inr ?acc'" by (simp add: metrics_step_def d)
  have ch: "chosen_edges g (u # v # rest) = d # chosen_edges g (v # rest)"
    by (simp add: chosen_edges_def d)
  show ?case using "1.IH" [OF step w] by (simp add: step ch add.assoc)
qed (simp_all add: chosen_edges_def)









lemma py_min_from_has_length:
  "\<exists>y \<in> set (b # xs). e_length y \<noteq> None \<Longrightarrow>
   e_length (py_min_from length_key b xs) \<noteq> None"
proof -
  assume "\<exists>y \<in> set (b # xs). e_length y \<noteq> None"
  then obtain y l where y: "y \<in> set (b # xs)" and l: "e_length y = Some l" by auto
  have "key_le (length_key (py_min_from length_key b xs)) (length_key y)"
    by (rule py_min_from_least [OF y])
  then show ?thesis
    by (cases "e_length (py_min_from length_key b xs)") (simp_all add: key_le_def length_key_def l)
qed

lemma walk_metrics_total:
  assumes "walk g route"
  shows "\<exists>r. calculate_route_metrics g route = Inr r"
proof -
  obtain acc where "metrics_loop g route (0, 0) = Inr acc"
    using metrics_loop_sum [OF assms] by blast
  then have "calculate_route_metrics g route = Inr (fst acc / 1000, snd acc * 60)"
    by (simp add: calculate_route_metrics_def)
  then show ?thesis by (rule exI)
qed

text \<open>
  Claim C10. The computation of the metrics never fails on a walk, whatever edges lack a
  length. A pair of nodes whose selected edge has no length leaves both running totals as they
  are, so it adds 0 to the distance and to the time; and the selection, which reads a missing
  length as infinite, returns an edge with a length whenever one of the parallel edges has one.
\<close>

theorem missing_length_contributes_zero:
  assumes "walk g route"
  shows "(\<exists>r. calculate_route_metrics g route = Inr r)
       \<and> (\<forall>u v rest d acc. select_edge g u v = Inr d \<and> e_length d = None \<longrightarrow>
             metrics_step g u v acc = Inr acc
             \<and> metrics_loop g (u # v # rest) acc = metrics_loop g (v # rest) acc)
       \<and> (\<forall>u v d. select_edge g u v = Inr d \<and> (\<exists>d' \<in> set (adj_values g u v). e_length d' \<noteq> None)
             \<longrightarrow> e_length d \<noteq> None)"
proof -
  have a: "\<exists>r. calculate_route_metrics g route = Inr r"
    by (rule walk_metrics_total [OF assms])
  have b: "metrics_step g u v acc = Inr acc
           \<and> metrics_loop g (u # v # rest) acc = metrics_loop g (v # rest) acc"
    if "select_edge g u v = Inr d" and "e_length d = None" for u v rest d acc
    using that by (simp add: metrics_step_def get_length_def)
  have c: "e_length d \<noteq> None"
    if "select_edge g u v = Inr d" and "\<exists>d' \<in> set (adj_values g u v). e_length d' \<noteq> None"
    for u v d
  proof (cases "adj_values g u v")
    case Nil
    with that show ?thesis by simp
  next
    case (Cons x xs)
    with that have "d = py_min_from length_key x xs" by (simp add: select_edge_def)
    moreover have "\<exists>y \<in> set (x # xs). e_length y \<noteq> None" using that(2) Cons by simp
    ultimately show ?thesis using py_min_from_has_length by blast
  qed
  show ?thesis using a b c by blast
qed

theorem missing_length_contributes_zero_witness:
  "walk parallel_net [2, 3, 4] \<and>
   select_edge parallel_net 3 4 = Inr (road None ''residential'') \<and>
   metrics_step parallel_net 3 4 (5, 7) = Inr (5, 7) \<and>
   select_edge parallel_net 2 3 = Inr (road (Some 0) ''trunk'') \<and>
   calculate_route_metrics parallel_net [2, 3, 4] = Inr (0, 0)"
proof -
  have w: "walk parallel_net [2, 3, 4]"
    by (simp add: parallel_net_def adj_values_def adj_def)
  have s34: "select_edge parallel_net 3 4 = Inr (road None ''residential'')"
    by (simp add: select_edge_def parallel_net_def adj_values_def adj_def)
  have s23: "select_edge parallel_net 2 3 = Inr (road (Some 0) ''trunk'')"
    by (simp add: select_edge_def parallel_net_def adj_values_def adj_def length_key_def road_def)
  have none: "e_length (road None ''residential'') = None" by (simp add: road_def)
  note inst = missing_length_contributes_zero [OF w]
  from inst s34 none have step: "metrics_step parallel_net 3 4 (5, 7) = Inr (5, 7)" by blast
  from inst s34 none have "metrics_loop parallel_net [3, 4] (0, 0) = metrics_loop parallel_net [4] (0, 0)"
    by blast
  then have "calculate_route_metrics parallel_net [2, 3, 4] = Inr (0, 0)"
    by (simp add: calculate_route_metrics_def metrics_step_def s23 get_length_def road_def)
  with w s34 s23 step show ?thesis by simp
qed


section \<open>The graph objects of \<open>find_routes\<close>\<close>

lemma remove_edge_without: "remove_edge g u v k = without g {(u, v, k)}"
  by (simp add: remove_edge_def without_def)

lemma without_without: "without (without g A) B = without g (A \<union> B)"
  by (simp add: without_def conj_commute)

lemma without_absent:
  "S \<inter> fst ` set (g_edges g) = {} \<Longrightarrow> without g S = g"
proof -
  assume a: "S \<inter> fst ` set (g_edges g) = {}"
  have "filter (\<lambda>e. fst e \<notin> S) (g_edges g) = g_edges g"
    by (rule filter_True) (use a in auto)
  then show ?thesis by (simp add: without_def)
qed

lemma has_edge_without:
  "has_edge (without g S) u v k = (has_edge g u v k \<and> (u, v, k) \<notin> S)"
  by (auto simp: has_edge_def without_def)

lemma block_step_heap:
  assumes "c < length h"
  shows "fst (block_step c e (h, r)) = h[c := without (h ! c) {e, rev_id e}]"
proof -
  obtain u v k where e: "e = (u, v, k)" by (cases e)
  have r: "rev_id e = (v, u, k)" by (simp add: e rev_id_def)
  let ?g = "h ! c"
  let ?g1 = "without ?g {(u, v, k)}"
  let ?h1 = "h[c := ?g1]"
  have w: "without g' {(a, b, k)} = g'" if "\<not> has_edge g' a b k" for g' a b
    by (rule without_absent) (use that in \<open>auto simp: has_edge_def\<close>)
  have first: "(if has_edge ?g u v k then remove_edge_at h c u v k else h) = ?h1"
    using w [of ?g u v] by (auto simp: remove_edge_at_def remove_edge_without)
  have nth: "?h1 ! c = ?g1" using assms by simp
  have second: "(if has_edge (?h1 ! c) v u k then remove_edge_at ?h1 c v u k else ?h1)
                  = h[c := without ?g1 {(v, u, k)}]"
    using w [of ?g1 v u] by (auto simp: remove_edge_at_def remove_edge_without nth)
  have "fst (block_step c e (h, r)) =
        (if has_edge (?h1 ! c) v u k then remove_edge_at ?h1 c v u k else ?h1)"
    using first by (auto simp: e Let_def split: prod.splits if_splits)
  also have "\<dots> = h[c := without ?g1 {(v, u, k)}]" by (rule second)
  also have "\<dots> = h[c := without ?g {e, rev_id e}]"
    using r by (simp add: without_without e insert_commute)
  finally show ?thesis .
qed

lemma block_fold_heap:
  "c < length h \<Longrightarrow>
   fst (fold (block_step c) bs (h, r)) =
     h[c := without (h ! c) (set bs \<union> rev_id ` set bs)]"
proof (induction bs arbitrary: h r)
  case Nil
  have "without (h ! c) {} = h ! c" by (simp add: without_def)
  then show ?case by simp
next
  case (Cons b bs)
  obtain h' r' where st: "block_step c b (h, r) = (h', r')" by (cases "block_step c b (h, r)")
  have h': "h' = h[c := without (h ! c) {b, rev_id b}]"
    using block_step_heap [OF Cons.prems, of b r] by (simp add: st)
  have len: "c < length h'" using Cons.prems by (simp add: h')
  have "fst (fold (block_step c) (b # bs) (h, r)) = fst (fold (block_step c) bs (h', r'))"
    by (simp add: st)
  also have "\<dots> = h'[c := without (h' ! c) (set bs \<union> rev_id ` set bs)]"
    by (rule Cons.IH [OF len])
  also have "\<dots> = h[c := without (h ! c) (set (b # bs) \<union> rev_id ` set (b # bs))]"
    using Cons.prems by (simp add: h' without_without Un_ac insert_commute)
  finally show ?case .
qed

lemma working_graph_eq:
  "working_graph h graph blocked = without (h ! graph) (set blocked \<union> rev_id ` set blocked)"
proof -
  have "fst (fold (block_step (length h)) blocked (h @ [h ! graph], 0)) =
        (h @ [h ! graph])[length h := without ((h @ [h ! graph]) ! length h)
            (set blocked \<union> rev_id ` set blocked)]"
    by (rule block_fold_heap) simp
  then show ?thesis
    by (cases "fold (block_step (length h)) blocked (h @ [h ! graph], 0)")
       (simp add: working_graph_def copy_graph_def)
qed

lemma block_fold_result:
  "fold (block_step (length h)) blocked (h @ [g], 0) = (h2, removed) \<Longrightarrow>
   h2 = h @ [without g (set blocked \<union> rev_id ` set blocked)]"
  using block_fold_heap [of "length h" "h @ [g]" blocked 0] by simp


lemma fold_at:
  assumes step: "\<And>x h'. a < length h' \<Longrightarrow> F x h' = h'[a := f x (h' ! a)]"
  shows "a < length h \<Longrightarrow> fold F xs h = h[a := fold f xs (h ! a)]"
proof (induction xs arbitrary: h)
  case Nil
  show ?case by simp
next
  case (Cons x xs)
  have len: "a < length (h[a := f x (h ! a)])" using Cons.prems by simp
  have "fold F (x # xs) h = fold F xs (h[a := f x (h ! a)])"
    by (simp add: step [OF Cons.prems])
  also have "\<dots> = (h[a := f x (h ! a)])[a := fold f xs ((h[a := f x (h ! a)]) ! a)]"
    by (rule Cons.IH [OF len])
  also have "\<dots> = h[a := fold f (x # xs) (h ! a)]"
    using Cons.prems by simp
  finally show ?case .
qed

lemma fold_remove_edge:
  "fold (\<lambda>key g'. remove_edge g' u v key) ks g = without g ((\<lambda>k. (u, v, k)) ` set ks)"
proof (induction ks arbitrary: g)
  case Nil
  show ?case by (simp add: without_def)
next
  case (Cons k ks)
  have "fold (\<lambda>key g'. remove_edge g' u v key) (k # ks) g =
        without (remove_edge g u v k) ((\<lambda>k. (u, v, k)) ` set ks)"
    by (simp add: Cons.IH)
  also have "\<dots> = without g ((\<lambda>k. (u, v, k)) ` set (k # ks))"
    by (simp add: remove_edge_without without_without)
  finally show ?case .
qed

lemma without_all_keys:
  "without g ((\<lambda>k. (u, v, k)) ` set (map fst (adj g u v))) = without_pair g u v"
proof -
  have "filter (\<lambda>e. fst e \<notin> (\<lambda>k. (u, v, k)) ` set (map fst (adj g u v))) (g_edges g) =
        filter (\<lambda>e. \<not> (fst (fst e) = u \<and> fst (snd (fst e)) = v)) (g_edges g)"
  proof (rule filter_cong [OF refl])
    fix e assume e: "e \<in> set (g_edges g)"
    obtain i d where i: "e = (i, d)" by (cases e)
    obtain a b k where [simp]: "e = ((a, b, k), d)" using i by (cases i) simp
    show "(fst e \<notin> (\<lambda>k. (u, v, k)) ` set (map fst (adj g u v))) =
          (\<not> (fst (fst e) = u \<and> fst (snd (fst e)) = v))"
      using e by (auto simp: adj_def image_iff intro!: bexI [of _ e])
  qed
  then show ?thesis by (simp add: without_def without_pair_def)
qed

lemma without_pair_no_adj: "adj g u v = [] \<Longrightarrow> without_pair g u v = g"
proof -
  assume "adj g u v = []"
  then have "filter (\<lambda>e. fst (fst e) = u \<and> fst (snd (fst e)) = v) (g_edges g) = []"
    by (simp add: adj_def)
  then have "\<forall>e \<in> set (g_edges g). \<not> (fst (fst e) = u \<and> fst (snd (fst e)) = v)"
    by (simp add: filter_empty_conv)
  then have "filter (\<lambda>e. \<not> (fst (fst e) = u \<and> fst (snd (fst e)) = v)) (g_edges g) = g_edges g"
    by (intro filter_True) simp
  then show ?thesis by (simp add: without_pair_def)
qed

lemma alt_step_heap:
  assumes "a < length h"
  shows "alt_step a path i h = h[a := without_pair (h ! a) (path ! i) (path ! (i + 1))]"
proof -
  let ?u = "path ! i" and ?v = "path ! (i + 1)"
  let ?g = "h ! a"
  show ?thesis
  proof (cases "adj ?g ?u ?v = []")
    case True
    then show ?thesis by (simp add: alt_step_def without_pair_no_adj)
  next
    case False
    have "fold (\<lambda>key h'. remove_edge_at h' a ?u ?v key) (map fst (adj ?g ?u ?v)) h =
          h[a := fold (\<lambda>key g'. remove_edge g' ?u ?v key) (map fst (adj ?g ?u ?v)) ?g]"
      by (rule fold_at [OF _ assms]) (simp add: remove_edge_at_def)
    also have "\<dots> = h[a := without_pair ?g ?u ?v]"
      by (simp only: fold_remove_edge without_all_keys)
    finally show ?thesis using False by (simp add: alt_step_def Let_def)
  qed
qed

lemma alt_fold_heap:
  "a < length h \<Longrightarrow>
   fold (alt_step a path) is h =
     h[a := fold (\<lambda>i g'. without_pair g' (path ! i) (path ! (i + 1))) is (h ! a)]"
  by (rule fold_at) (rule alt_step_heap)

lemma alt_graph_eq:
  "alt_graph g path =
     fold (\<lambda>i g'. without_pair g' (path ! i) (path ! (i + 1)))
          [length path div 3 ..< min (2 * length path div 3) (length path - 1)] g"
  using alt_fold_heap [of 1 "[g, g]" path]
  by (simp add: alt_graph_def copy_graph_def Let_def)

lemma find_routes_unfold:
  assumes "graph < length h"
  shows "find_routes nn sp h graph slat slon elat elon blocked =
    (case find_nearest_node nn (h ! graph) slat slon of
       Inl e \<Rightarrow> (h, Inl e)
     | Inr s \<Rightarrow>
    (case find_nearest_node nn (h ! graph) elat elon of
       Inl e \<Rightarrow> (h, Inl e)
     | Inr t \<Rightarrow>
       (case primary_try sp (working_graph h graph blocked) s t of
          Inl NetworkXNoPath \<Rightarrow> (h @ [working_graph h graph blocked], Inr [])
        | Inl e \<Rightarrow> (h @ [working_graph h graph blocked], Inl e)
        | Inr (path, routes) \<Rightarrow>
            if length path > 10 then
              (h @ [working_graph h graph blocked,
                    alt_graph (working_graph h graph blocked) path],
               case alternative_try sp (working_graph h graph blocked)
                      (alt_graph (working_graph h graph blocked) path) s t path routes of
                 Inl NetworkXNoPath \<Rightarrow> Inr routes
               | Inl e \<Rightarrow> Inl e
               | Inr routes' \<Rightarrow> Inr routes')
            else (h @ [working_graph h graph blocked], Inr routes))))"
proof -
  let ?clean = "working_graph h graph blocked"
  obtain h2 removed where
    fold1: "fold (block_step (length h)) blocked (h @ [h ! graph], 0) = (h2, removed)"
    by (cases "fold (block_step (length h)) blocked (h @ [h ! graph], 0)")
  have h2: "h2 = h @ [?clean]"
    using block_fold_result [OF fold1] by (simp add: working_graph_eq)
  have alt: "fold (alt_step (Suc (length h)) path) is (h @ [?clean, ?clean]) =
             h @ [?clean, fold (\<lambda>i g'. without_pair g' (path ! i) (path ! (i + 1))) is ?clean]"
    for path "is"
    using alt_fold_heap [of "Suc (length h)" "h @ [?clean, ?clean]" path "is"]
    by (simp add: nth_append list_update_append)
  show ?thesis
    by (simp add: find_routes_def copy_graph_def fold1 h2 alt alt_graph_eq nth_append Let_def
             split: sum.splits error.splits prod.splits)
qed


lemma rev_id_rev_id [simp]: "rev_id (rev_id e) = e"
  by (simp add: rev_id_def)

lemma rev_id_triple [simp]: "rev_id (u, v, k) = (v, u, k)"
  by (simp add: rev_id_def)

lemma g_nodes_without [simp]: "g_nodes (without g S) = g_nodes g"
  by (simp add: without_def)

lemma g_edges_without: "g_edges (without g S) = filter (\<lambda>e. fst e \<notin> S) (g_edges g)"
  by (simp add: without_def)

lemma g_nodes_working_graph [simp]: "g_nodes (working_graph h graph blocked) = g_nodes (h ! graph)"
  by (simp add: working_graph_eq)

text \<open>
  Claim C1, as amended. The working graph has the nodes of the network and exactly those of
  its edges \<open>(u, v, key)\<close> for which neither \<open>(u, v, key)\<close> nor \<open>(v, u, key)\<close> is in the
  blocked list: \<open>find_routes\<close> removes every blocked edge and its reverse.
\<close>

theorem working_graph_edges:
  "g_nodes (working_graph h graph blocked) = g_nodes (h ! graph) \<and>
   g_edges (working_graph h graph blocked) =
     filter (\<lambda>e. fst e \<notin> set blocked \<and> rev_id (fst e) \<notin> set blocked) (g_edges (h ! graph))"
proof -
  have "(fst e \<notin> set blocked \<union> rev_id ` set blocked) =
        (fst e \<notin> set blocked \<and> rev_id (fst e) \<notin> set blocked)" for e :: "edge_id \<times> edge_data"
  proof -
    have "(fst e \<in> rev_id ` set blocked) = (rev_id (fst e) \<in> set blocked)"
      by (metis image_iff rev_id_rev_id)
    then show ?thesis by simp
  qed
  then show ?thesis by (simp add: working_graph_eq g_edges_without)
qed

text \<open>
  The claim as the specification words it fails: with \<open>(1, 2, 0)\<close> alone blocked in the
  square, the edge \<open>(2, 1, 0)\<close> is in the network and not in the blocked list, and it is not
  in the working graph.
\<close>

theorem reverse_edge_removed_counterexample:
  "has_edge square 2 1 0 \<and> (2, 1, 0) \<notin> set [(1, 2, 0) :: edge_id] \<and>
   \<not> has_edge (working_graph [square] 0 [(1, 2, 0)]) 2 1 0"
  by (simp add: working_graph_eq has_edge_def g_edges_without square_def)




text \<open>
  Claim C9. \<open>find_routes\<close> leaves every graph object that existed before the call as it
  was, the road network among them (nodes, edges and attributes): the store after the call is
  the store before it, followed by the copies made during the call.
\<close>

theorem find_routes_frame:
  assumes "graph < length h"
  shows "take (length h) (fst (find_routes nn sp h graph slat slon elat elon blocked)) = h \<and>
         fst (find_routes nn sp h graph slat slon elat elon blocked) ! graph = h ! graph"
proof -
  have "\<exists>new. fst (find_routes nn sp h graph slat slon elat elon blocked) = h @ new"
    by (simp add: find_routes_unfold [OF assms] split: sum.splits error.splits prod.splits)
  then obtain new where "fst (find_routes nn sp h graph slat slon elat elon blocked) = h @ new"
    by blast
  then show ?thesis using assms by (simp add: nth_append)
qed


section \<open>Routes and the working graph\<close>

lemma g_nodes_without_pair [simp]: "g_nodes (without_pair g u v) = g_nodes g"
  by (simp add: without_pair_def)

lemma g_edges_without_pair_subset: "set (g_edges (without_pair g u v)) \<subseteq> set (g_edges g)"
  by (auto simp: without_pair_def)

lemma fold_without_pair_nodes:
  "g_nodes (fold (\<lambda>i g'. without_pair g' (f i) (f' i)) is g) = g_nodes g"
  by (induction "is" arbitrary: g) simp_all

lemma fold_without_pair_edges:
  "set (g_edges (fold (\<lambda>i g'. without_pair g' (f i) (f' i)) is g)) \<subseteq> set (g_edges g)"
proof (induction "is" arbitrary: g)
  case Nil
  show ?case by simp
next
  case (Cons i "is")
  show ?case using Cons.IH [of "without_pair g (f i) (f' i)"] g_edges_without_pair_subset [of g]
    by auto
qed

lemma g_nodes_alt_graph [simp]: "g_nodes (alt_graph g path) = g_nodes g"
  by (simp add: alt_graph_eq fold_without_pair_nodes)

lemma g_edges_alt_graph: "set (g_edges (alt_graph g path)) \<subseteq> set (g_edges g)"
  by (simp add: alt_graph_eq fold_without_pair_edges)

lemma adj_values_nonempty_iff:
  "(adj_values g u v \<noteq> []) =
   (\<exists>e \<in> set (g_edges g). fst (fst e) = u \<and> fst (snd (fst e)) = v)"
  by (auto simp: adj_values_def adj_def filter_empty_conv)

lemma adj_values_mono:
  "set (g_edges g') \<subseteq> set (g_edges g) \<Longrightarrow> adj_values g' u v \<noteq> [] \<Longrightarrow> adj_values g u v \<noteq> []"
  unfolding adj_values_nonempty_iff by blast

lemma walk_mono:
  "set (g_edges g') \<subseteq> set (g_edges g) \<Longrightarrow> walk g' p \<Longrightarrow> walk g p"
proof (induction g' p rule: walk.induct)
  case (1 g' u v rest)
  then show ?case using adj_values_mono [of g' g u v] by simp
qed simp_all

lemma walk_pairs:
  "walk g p \<Longrightarrow> e \<in> set (pairs p) \<Longrightarrow> adj_values g (fst e) (snd e) \<noteq> []"
proof (induction g p rule: walk.induct)
  case (1 g u v rest)
  then show ?case by auto
qed simp_all

lemma adj_key_has_edge:
  "k \<in> set (map fst (adj g u v)) \<Longrightarrow> has_edge g u v k"
  by (force simp: adj_def has_edge_def)

lemma adj_nonempty: "adj g u v \<noteq> [] \<longleftrightarrow> adj_values g u v \<noteq> []"
  by (simp add: adj_values_def)

lemma rev_id_image_iff: "(e \<in> rev_id ` S) = (rev_id e \<in> S)"
proof
  assume "e \<in> rev_id ` S"
  then obtain x where "x \<in> S" and "e = rev_id x" by blast
  then show "rev_id e \<in> S" by simp
next
  assume "rev_id e \<in> S"
  then have "rev_id (rev_id e) \<in> rev_id ` S" by (rule imageI)
  then show "e \<in> rev_id ` S" by simp
qed

lemma has_edge_working_graph:
  "has_edge (working_graph h graph blocked) u v k =
     (has_edge (h ! graph) u v k \<and> (u, v, k) \<notin> set blocked \<and> (v, u, k) \<notin> set blocked)"
  by (auto simp: working_graph_eq has_edge_without rev_id_image_iff)

lemma node_ids_working_graph [simp]:
  "node_ids (working_graph h graph blocked) = node_ids (h ! graph)"
  by (simp add: node_ids_def)

lemma node_ids_alt_graph [simp]: "node_ids (alt_graph g path) = node_ids g"
  by (simp add: node_ids_def)

lemma sp_contract_route: "sp_contract sp \<Longrightarrow> sp g s t = Inr p \<Longrightarrow> is_route g s t p"
  unfolding sp_contract_def by (metis (mono_tags, lifting) sum.simps(6))

lemma sp_contract_error:
  "sp_contract sp \<Longrightarrow> sp g s t = Inl e \<Longrightarrow>
   e = NetworkXNoPath \<or> (e = NodeNotFound \<and> (s \<notin> node_ids g \<or> t \<notin> node_ids g))"
  unfolding sp_contract_def by (metis (mono_tags, lifting) sum.simps(5))

lemma primary_try_Inr:
  "primary_try sp g s t = Inr (path, routes) \<Longrightarrow>
   sp g s t = Inr path \<and>
   (\<exists>m. calculate_route_metrics g path = Inr m \<and>
        routes = [\<lparr>r_name = ''Fastest Route'', r_path = path, r_distance_km = fst m,
                   r_time_min = snd m, r_color = ''#00c853'', r_type = ''fastest''\<rparr>])"
  by (auto simp: primary_try_def split: sum.splits)

lemma alternative_try_Inr:
  "alternative_try sp g ga s t path routes = Inr routes' \<Longrightarrow>
   routes' = routes \<or>
   (\<exists>alt_path m. sp ga s t = Inr alt_path \<and> alt_path \<noteq> path \<and>
        calculate_route_metrics g alt_path = Inr m \<and>
        routes' = routes @ [\<lparr>r_name = ''Alternative Route'', r_path = alt_path,
                   r_distance_km = fst m, r_time_min = snd m, r_color = ''#ffa726'',
                   r_type = ''alternative''\<rparr>])"
  by (auto simp: alternative_try_def split: sum.splits if_splits)

lemma find_routes_resolved:
  assumes "graph < length h"
    and "find_nearest_node nn (h ! graph) slat slon = Inr s"
    and "find_nearest_node nn (h ! graph) elat elon = Inr t"
  shows "find_routes nn sp h graph slat slon elat elon blocked =
       (case primary_try sp (working_graph h graph blocked) s t of
          Inl NetworkXNoPath \<Rightarrow> (h @ [working_graph h graph blocked], Inr [])
        | Inl e \<Rightarrow> (h @ [working_graph h graph blocked], Inl e)
        | Inr (path, routes) \<Rightarrow>
            if length path > 10 then
              (h @ [working_graph h graph blocked,
                    alt_graph (working_graph h graph blocked) path],
               case alternative_try sp (working_graph h graph blocked)
                      (alt_graph (working_graph h graph blocked) path) s t path routes of
                 Inl NetworkXNoPath \<Rightarrow> Inr routes
               | Inl e \<Rightarrow> Inl e
               | Inr routes' \<Rightarrow> Inr routes')
            else (h @ [working_graph h graph blocked], Inr routes))"
  by (simp only: find_routes_unfold [OF assms(1)] assms(2,3) sum.case)

lemma find_routes_Inr_resolved:
  assumes "graph < length h"
    and "snd (find_routes nn sp h graph slat slon elat elon blocked) = Inr routes"
  shows "\<exists>s t. find_nearest_node nn (h ! graph) slat slon = Inr s \<and>
               find_nearest_node nn (h ! graph) elat elon = Inr t"
proof (cases "find_nearest_node nn (h ! graph) slat slon")
  case (Inl e)
  with assms show ?thesis by (simp add: find_routes_unfold)
next
  case s: (Inr s)
  show ?thesis
  proof (cases "find_nearest_node nn (h ! graph) elat elon")
    case (Inl e)
    with assms s show ?thesis by (simp add: find_routes_unfold)
  next
    case (Inr t)
    with s show ?thesis by simp
  qed
qed

lemma find_routes_paths:
  assumes "graph < length h"
    and "snd (find_routes nn sp h graph slat slon elat elon blocked) = Inr routes"
    and "r \<in> set routes"
  shows "\<exists>s t. sp (working_graph h graph blocked) s t = Inr (r_path r) \<or>
           (\<exists>path. sp (alt_graph (working_graph h graph blocked) path) s t = Inr (r_path r))"
proof -
  let ?clean = "working_graph h graph blocked"
  from find_routes_Inr_resolved [OF assms(1,2)] obtain s t where
    s: "find_nearest_node nn (h ! graph) slat slon = Inr s" and
    t: "find_nearest_node nn (h ! graph) elat elon = Inr t" by blast
  note unf = find_routes_resolved [OF assms(1) s t, of sp blocked]
  have res: "snd (case primary_try sp ?clean s t of
          Inl NetworkXNoPath \<Rightarrow> (h @ [?clean], Inr [])
        | Inl e \<Rightarrow> (h @ [?clean], Inl e)
        | Inr (path, routes) \<Rightarrow>
            if length path > 10 then
              (h @ [?clean, alt_graph ?clean path],
               case alternative_try sp ?clean (alt_graph ?clean path) s t path routes of
                 Inl NetworkXNoPath \<Rightarrow> Inr routes
               | Inl e \<Rightarrow> Inl e
               | Inr routes' \<Rightarrow> Inr routes')
            else (h @ [?clean], Inr routes)) = Inr routes"
    using assms(2) by (simp only: unf)
  show ?thesis
  proof (cases "primary_try sp ?clean s t")
    case (Inl e)
    with res assms(3) show ?thesis by (cases e) auto
  next
    case (Inr pr)
    obtain path routes0 where pr: "pr = (path, routes0)" by (cases pr)
    from primary_try_Inr [OF Inr [unfolded pr]] obtain m where
      sp: "sp ?clean s t = Inr path" and
      r0: "routes0 = [\<lparr>r_name = ''Fastest Route'', r_path = path, r_distance_km = fst m,
                   r_time_min = snd m, r_color = ''#00c853'', r_type = ''fastest''\<rparr>]"
      by blast
    show ?thesis
    proof (cases "length path > 10")
      case False
      with res Inr pr have "routes = routes0" by simp
      with assms(3) r0 sp show ?thesis by auto
    next
      case True
      show ?thesis
      proof (cases "alternative_try sp ?clean (alt_graph ?clean path) s t path routes0")
        case (Inl e)
        with res Inr pr True have "routes = routes0" by (cases e) auto
        with assms(3) r0 sp show ?thesis by auto
      next
        case (Inr routes')
        with res \<open>primary_try sp ?clean s t = Inr pr\<close> pr True have eq: "routes = routes'" by simp
        from alternative_try_Inr [OF Inr] show ?thesis
        proof
          assume "routes' = routes0"
          with eq assms(3) r0 sp show ?thesis by auto
        next
          assume "\<exists>alt_path m. sp (alt_graph ?clean path) s t = Inr alt_path \<and> alt_path \<noteq> path \<and>
            calculate_route_metrics ?clean alt_path = Inr m \<and>
            routes' = routes0 @ [\<lparr>r_name = ''Alternative Route'', r_path = alt_path,
                   r_distance_km = fst m, r_time_min = snd m, r_color = ''#ffa726'',
                   r_type = ''alternative''\<rparr>]"
          then obtain alt_path m' where
            a: "sp (alt_graph ?clean path) s t = Inr alt_path" and
            b: "routes' = routes0 @ [\<lparr>r_name = ''Alternative Route'', r_path = alt_path,
                   r_distance_km = fst m', r_time_min = snd m', r_color = ''#ffa726'',
                   r_type = ''alternative''\<rparr>]"
            by blast
          from eq b r0 assms(3) have "r_path r = path \<or> r_path r = alt_path" by auto
          with sp a show ?thesis by blast
        qed
      qed
    qed
  qed
qed

text \<open>
  Claim C2. Whatever the network, the blocked list and the coordinates, each consecutive pair
  of nodes of a returned route is joined in the working graph, and every edge that joins the
  pair there is an edge of the network whose identifier is not in the blocked list: a route
  traverses no blocked edge.
\<close>

theorem routes_avoid_blocked:
  assumes "sp_contract sp" and "graph < length h"
    and "snd (find_routes nn sp h graph slat slon elat elon blocked) = Inr routes"
    and "r \<in> set routes" and "(u, v) \<in> set (pairs (r_path r))"
  shows "adj (working_graph h graph blocked) u v \<noteq> [] \<and>
         (\<forall>k \<in> set (map fst (adj (working_graph h graph blocked) u v)).
             has_edge (h ! graph) u v k \<and> (u, v, k) \<notin> set blocked)"
proof -
  let ?clean = "working_graph h graph blocked"
  from find_routes_paths [OF assms(2,3,4)] obtain s t where
    "sp ?clean s t = Inr (r_path r) \<or>
     (\<exists>path. sp (alt_graph ?clean path) s t = Inr (r_path r))"
    by blast
  then have w: "walk ?clean (r_path r)"
  proof
    assume "sp ?clean s t = Inr (r_path r)"
    from sp_contract_route [OF assms(1) this] show ?thesis by (simp add: is_route_def)
  next
    assume "\<exists>path. sp (alt_graph ?clean path) s t = Inr (r_path r)"
    then obtain path where "sp (alt_graph ?clean path) s t = Inr (r_path r)" by blast
    from sp_contract_route [OF assms(1) this] have "walk (alt_graph ?clean path) (r_path r)"
      by (simp add: is_route_def)
    then show ?thesis by (rule walk_mono [OF g_edges_alt_graph])
  qed
  from walk_pairs [OF w assms(5)] have ne: "adj ?clean u v \<noteq> []"
    by (simp add: adj_nonempty)
  have "has_edge (h ! graph) u v k \<and> (u, v, k) \<notin> set blocked"
    if "k \<in> set (map fst (adj ?clean u v))" for k
    using adj_key_has_edge [OF that] by (simp add: has_edge_working_graph)
  with ne show ?thesis by blast
qed


section \<open>The reference implementations meet the contracts\<close>

lemma fold_pick_mem: "fold (\<lambda>c best. if P c best then c else best) ns n \<in> set (n # ns)"
  by (induction ns arbitrary: n) (auto split: if_splits)

lemma ref_nn_contract: "nn_contract ref_nearest_nodes"
proof -
  have "n \<in> node_ids g" if "ref_nearest_nodes g x y = Inr n" for g x y n
  proof (cases "g_nodes g")
    case Nil
    with that show ?thesis by (simp add: ref_nearest_nodes_def)
  next
    case (Cons a as)
    let ?m = "fold (\<lambda>c best. if dist2 c x y < dist2 best x y then c else best) as a"
    have "?m \<in> set (g_nodes g)" unfolding Cons by (rule fold_pick_mem)
    then have "fst ?m \<in> fst ` set (g_nodes g)" by (rule imageI)
    moreover have "n = fst ?m" using that Cons by (simp add: ref_nearest_nodes_def)
    ultimately show ?thesis by (simp add: node_ids_def)
  qed
  then show ?thesis by (simp add: nn_contract_def)
qed

lemma successors_adj: "v \<in> set (successors g u) \<Longrightarrow> adj_values g u v \<noteq> []"
  by (auto simp: successors_def adj_values_nonempty_iff)

lemma walks_to_sound: "p \<in> set (walks_to n g t u) \<Longrightarrow> is_route g u t p"
proof (induction n arbitrary: u p)
  case 0
  then show ?case by (auto simp: is_route_def split: if_splits)
next
  case (Suc n)
  show ?case
  proof (cases "u = t")
    case True
    with Suc.prems show ?thesis by (simp add: is_route_def)
  next
    case False
    with Suc.prems obtain v q where v: "v \<in> set (successors g u)"
      and q: "q \<in> set (walks_to n g t v)" and p: "p = u # q" by auto
    from Suc.IH [OF q] have r: "q \<noteq> []" "hd q = v" "last q = t" "walk g q"
      by (simp_all add: is_route_def)
    then obtain q' where q': "q = v # q'" by (cases q) auto
    show ?thesis using r successors_adj [OF v] by (simp add: is_route_def p q')
  qed
qed

lemma ref_sp_contract: "sp_contract ref_shortest_path"
proof -
  have "case ref_shortest_path g s t of
          Inr p \<Rightarrow> is_route g s t p
        | Inl e \<Rightarrow> e = NetworkXNoPath \<or>
                   (e = NodeNotFound \<and> (s \<notin> node_ids g \<or> t \<notin> node_ids g))" for g s t
  proof (cases "s \<notin> node_ids g \<or> t \<notin> node_ids g")
    case True
    then show ?thesis by (simp add: ref_shortest_path_def)
  next
    case False
    show ?thesis
    proof (cases "walks_to (length (g_nodes g)) g t s")
      case Nil
      with False show ?thesis by (simp add: ref_shortest_path_def)
    next
      case (Cons w ws)
      let ?p = "py_min_from (\<lambda>p. Some (walk_cost g p)) w ws"
      have "?p \<in> set (walks_to (length (g_nodes g)) g t s)"
        using py_min_from_mem [of "\<lambda>p. Some (walk_cost g p)" w ws] by (simp only: Cons)
      then have "is_route g s t ?p" by (rule walks_to_sound)
      with False Cons show ?thesis by (simp add: ref_shortest_path_def)
    qed
  qed
  then show ?thesis unfolding sp_contract_def by blast
qed

lemma route_walk_metrics:
  "is_route g s t p \<Longrightarrow> \<exists>d tm. calculate_route_metrics g p = Inr (d, tm)"
  using walk_metrics_total [of g p] by (auto simp: is_route_def)

text \<open>
  Claim C3. When no path leads from the start node to the end node in the working graph,
  \<open>find_routes\<close> returns the empty list of routes, and no exception.
\<close>

theorem no_path_empty_result:
  assumes "sp_contract sp" and "nn_contract nn" and "graph < length h"
    and "find_nearest_node nn (h ! graph) slat slon = Inr s"
    and "find_nearest_node nn (h ! graph) elat elon = Inr t"
    and "\<not> (\<exists>p. is_route (working_graph h graph blocked) s t p)"
  shows "snd (find_routes nn sp h graph slat slon elat elon blocked) = Inr []"
proof -
  let ?clean = "working_graph h graph blocked"
  have s: "s \<in> node_ids ?clean" and t: "t \<in> node_ids ?clean"
    using assms(2,4,5) by (auto simp: nn_contract_def find_nearest_node_def)
  have "sp ?clean s t = Inl NetworkXNoPath"
  proof (cases "sp ?clean s t")
    case (Inl e)
    from sp_contract_error [OF assms(1) Inl] s t Inl show ?thesis by blast
  next
    case (Inr p)
    from sp_contract_route [OF assms(1) Inr] assms(6) show ?thesis by blast
  qed
  then have "primary_try sp ?clean s t = Inl NetworkXNoPath"
    by (simp add: primary_try_def)
  then show ?thesis
    by (simp add: find_routes_resolved [OF assms(3,4,5)])
qed

text \<open>
  Claim C5. When the primary path has at most 10 nodes, \<open>find_routes\<close> returns exactly one
  route, the fastest one over that path, and makes no second copy of the graph: the only new
  object is \<open>graph_clean\<close>, so no alternative is attempted.
\<close>

theorem short_path_single_route:
  assumes "sp_contract sp" and "graph < length h"
    and "find_nearest_node nn (h ! graph) slat slon = Inr s"
    and "find_nearest_node nn (h ! graph) elat elon = Inr t"
    and "sp (working_graph h graph blocked) s t = Inr path"
    and "length path \<le> 10"
  shows "\<exists>d tm. calculate_route_metrics (working_graph h graph blocked) path = Inr (d, tm) \<and>
           find_routes nn sp h graph slat slon elat elon blocked =
             (h @ [working_graph h graph blocked],
              Inr [\<lparr>r_name = ''Fastest Route'', r_path = path, r_distance_km = d,
                     r_time_min = tm, r_color = ''#00c853'', r_type = ''fastest''\<rparr>])"
proof -
  let ?clean = "working_graph h graph blocked"
  from sp_contract_route [OF assms(1,5)] obtain d tm where
    m: "calculate_route_metrics ?clean path = Inr (d, tm)"
    using route_walk_metrics by blast
  have "primary_try sp ?clean s t =
          Inr (path, [\<lparr>r_name = ''Fastest Route'', r_path = path, r_distance_km = d,
                     r_time_min = tm, r_color = ''#00c853'', r_type = ''fastest''\<rparr>])"
    by (simp add: primary_try_def assms(5) m)
  then have "find_routes nn sp h graph slat slon elat elon blocked =
             (h @ [?clean],
              Inr [\<lparr>r_name = ''Fastest Route'', r_path = path, r_distance_km = d,
                     r_time_min = tm, r_color = ''#00c853'', r_type = ''fastest''\<rparr>])"
    using assms(6) by (simp add: find_routes_resolved [OF assms(2,3,4)])
  with m show ?thesis by blast
qed

lemma metrics_loop_error: "metrics_loop g route acc = Inl e \<Longrightarrow> e = KeyError"
proof (induction g route acc rule: metrics_loop.induct)
  case (1 g u v rest acc)
  show ?case
  proof (cases "metrics_step g u v acc")
    case (Inl e')
    then have "e' = KeyError"
      by (auto simp: metrics_step_def select_edge_def split: sum.splits list.splits)
    with "1.prems" Inl show ?thesis by simp
  next
    case (Inr acc')
    with "1.prems" "1.IH" show ?thesis by simp
  qed
qed simp_all

lemma metrics_error: "calculate_route_metrics g route = Inl e \<Longrightarrow> e = KeyError"
  using metrics_loop_error [of g route "(0, 0)" e]
  by (auto simp: calculate_route_metrics_def split: sum.splits)

text \<open>
  Claim C4. When the primary path has more than 10 nodes, \<open>find_routes\<close> copies the
  working graph, removes the edges of the middle of the primary path from the copy, and
  searches again in the copy: the store gains the working graph, unchanged, and the copy.
  Whatever the search function, a path that is found and differs from the primary path is
  returned as the alternative route, with the distance and the time that
  \<open>calculate_route_metrics\<close> gives for it on the working graph (the network without the
  blocked edges), not on the copy; a path equal to the primary path, or no path, leaves the
  fastest route alone. With a search function that meets its contract the metrics of both
  paths exist.
\<close>

theorem alternative_route_rule:
  assumes "graph < length h"
    and "find_nearest_node nn (h ! graph) slat slon = Inr s"
    and "find_nearest_node nn (h ! graph) elat elon = Inr t"
    and "sp (working_graph h graph blocked) s t = Inr path"
    and "10 < length path"
  shows "(\<forall>d tm. calculate_route_metrics (working_graph h graph blocked) path = Inr (d, tm) \<longrightarrow>
           find_routes nn sp h graph slat slon elat elon blocked =
             (h @ [working_graph h graph blocked,
                   alt_graph (working_graph h graph blocked) path],
              case sp (alt_graph (working_graph h graph blocked) path) s t of
                Inr alt_path \<Rightarrow>
                  if alt_path \<noteq> path then
                    (case calculate_route_metrics (working_graph h graph blocked) alt_path of
                       Inr m \<Rightarrow>
                         Inr [\<lparr>r_name = ''Fastest Route'', r_path = path, r_distance_km = d,
                                r_time_min = tm, r_color = ''#00c853'', r_type = ''fastest''\<rparr>,
                              \<lparr>r_name = ''Alternative Route'', r_path = alt_path,
                                r_distance_km = fst m, r_time_min = snd m,
                                r_color = ''#ffa726'', r_type = ''alternative''\<rparr>]
                     | Inl e \<Rightarrow> Inl e)
                  else
                    Inr [\<lparr>r_name = ''Fastest Route'', r_path = path, r_distance_km = d,
                           r_time_min = tm, r_color = ''#00c853'', r_type = ''fastest''\<rparr>]
              | Inl NetworkXNoPath \<Rightarrow>
                  Inr [\<lparr>r_name = ''Fastest Route'', r_path = path, r_distance_km = d,
                         r_time_min = tm, r_color = ''#00c853'', r_type = ''fastest''\<rparr>]
              | Inl e \<Rightarrow> Inl e))
       \<and> (sp_contract sp \<longrightarrow>
            (\<exists>d tm. calculate_route_metrics (working_graph h graph blocked) path = Inr (d, tm)) \<and>
            (\<forall>alt_path. sp (alt_graph (working_graph h graph blocked) path) s t = Inr alt_path \<longrightarrow>
               (\<exists>d' tm'. calculate_route_metrics (working_graph h graph blocked) alt_path
                           = Inr (d', tm'))))"
proof -
  let ?clean = "working_graph h graph blocked"
  let ?alt = "alt_graph ?clean path"
  have a: "find_routes nn sp h graph slat slon elat elon blocked =
             (h @ [?clean, ?alt],
              case sp ?alt s t of
                Inr alt_path \<Rightarrow>
                  if alt_path \<noteq> path then
                    (case calculate_route_metrics ?clean alt_path of
                       Inr m \<Rightarrow>
                         Inr [\<lparr>r_name = ''Fastest Route'', r_path = path, r_distance_km = d,
                                r_time_min = tm, r_color = ''#00c853'', r_type = ''fastest''\<rparr>,
                              \<lparr>r_name = ''Alternative Route'', r_path = alt_path,
                                r_distance_km = fst m, r_time_min = snd m,
                                r_color = ''#ffa726'', r_type = ''alternative''\<rparr>]
                     | Inl e \<Rightarrow> Inl e)
                  else
                    Inr [\<lparr>r_name = ''Fastest Route'', r_path = path, r_distance_km = d,
                           r_time_min = tm, r_color = ''#00c853'', r_type = ''fastest''\<rparr>]
              | Inl NetworkXNoPath \<Rightarrow>
                  Inr [\<lparr>r_name = ''Fastest Route'', r_path = path, r_distance_km = d,
                         r_time_min = tm, r_color = ''#00c853'', r_type = ''fastest''\<rparr>]
              | Inl e \<Rightarrow> Inl e)"
    if m: "calculate_route_metrics ?clean path = Inr (d, tm)" for d tm
  proof -
    let ?fast = "\<lparr>r_name = ''Fastest Route'', r_path = path, r_distance_km = d,
                     r_time_min = tm, r_color = ''#00c853'', r_type = ''fastest''\<rparr>"
    have p: "primary_try sp ?clean s t = Inr (path, [?fast])"
      by (simp add: primary_try_def assms(4) m)
    have res: "find_routes nn sp h graph slat slon elat elon blocked =
        (h @ [?clean, ?alt],
         case alternative_try sp ?clean ?alt s t path [?fast] of
           Inl NetworkXNoPath \<Rightarrow> Inr [?fast]
         | Inl e \<Rightarrow> Inl e
         | Inr routes' \<Rightarrow> Inr routes')"
      using assms(5) by (simp add: find_routes_resolved [OF assms(1,2,3)] p)
    show ?thesis
    proof (cases "sp ?alt s t")
      case (Inl e)
      then show ?thesis by (cases e) (simp_all add: res alternative_try_def)
    next
      case (Inr alt_path)
      show ?thesis
      proof (cases "alt_path = path")
        case True
        with Inr show ?thesis by (simp add: res alternative_try_def)
      next
        case False
        show ?thesis
        proof (cases "calculate_route_metrics ?clean alt_path")
          case e: (Inl e)
          from metrics_error [OF e] have "e = KeyError" .
          with Inr False e show ?thesis by (simp add: res alternative_try_def)
        next
          case m': (Inr m')
          with Inr False show ?thesis by (simp add: res alternative_try_def)
        qed
      qed
    qed
  qed
  have b: "(\<exists>d tm. calculate_route_metrics ?clean path = Inr (d, tm)) \<and>
           (\<forall>alt_path. sp ?alt s t = Inr alt_path \<longrightarrow>
               (\<exists>d' tm'. calculate_route_metrics ?clean alt_path = Inr (d', tm')))"
    if c: "sp_contract sp"
  proof -
    from sp_contract_route [OF c assms(4)] have 1:
      "\<exists>d tm. calculate_route_metrics ?clean path = Inr (d, tm)"
      by (rule route_walk_metrics)
    have 2: "\<exists>d' tm'. calculate_route_metrics ?clean alt_path = Inr (d', tm')"
      if "sp ?alt s t = Inr alt_path" for alt_path
    proof -
      from sp_contract_route [OF c that] have "walk ?alt alt_path"
        by (simp add: is_route_def)
      then have "walk ?clean alt_path" by (rule walk_mono [OF g_edges_alt_graph])
      from walk_metrics_total [OF this] show ?thesis by auto
    qed
    from 1 2 show ?thesis by blast
  qed
  from a b show ?thesis by blast
qed

section \<open>The properties on the example networks\<close>

lemma route_needs_incoming:
  "walk g p \<Longrightarrow> p \<noteq> [] \<Longrightarrow> hd p \<noteq> last p \<Longrightarrow>
   last p \<in> set (map (\<lambda>e. fst (snd (fst e))) (g_edges g))"
proof (induction g p rule: walk.induct)
  case (1 g u v rest)
  show ?case
  proof (cases "v = last (v # rest)")
    case True
    from "1.prems"(1) have "adj_values g u v \<noteq> []" by simp
    then obtain e where "e \<in> set (g_edges g)" and "fst (snd (fst e)) = v"
      unfolding adj_values_nonempty_iff by blast
    then have "v \<in> set (map (\<lambda>e. fst (snd (fst e))) (g_edges g))" by force
    with True show ?thesis by simp
  next
    case False
    with "1.IH" "1.prems"(1) show ?thesis by simp
  qed
qed simp_all

lemma square_cut_graph:
  "working_graph [square] 0 [(1, 2, 0)] =
     \<lparr>g_nodes = [(1, 0, 0), (2, 1, 0), (3, 1, 1), (4, 0, 1)],
      g_edges = [((2, 3, 0), road (Some 1000) ''secondary''),
                 ((3, 2, 0), road (Some 1000) ''secondary''),
                 ((3, 4, 0), road (Some 1000) ''secondary''),
                 ((4, 3, 0), road (Some 1000) ''secondary''),
                 ((4, 1, 0), road (Some 1000) ''secondary''),
                 ((1, 4, 0), road (Some 1000) ''secondary'')]\<rparr>"
  by (simp add: working_graph_eq without_def square_def)

lemma nn_square_1: "find_nearest_node ref_nearest_nodes square 0 0 = Inr 1"
  by (simp add: find_nearest_node_def ref_nearest_nodes_def square_def dist2_def)

lemma nn_square_3: "find_nearest_node ref_nearest_nodes square 1 1 = Inr 3"
  by (simp add: find_nearest_node_def ref_nearest_nodes_def square_def dist2_def)

lemma sp_square_cut:
  "ref_shortest_path (working_graph [square] 0 [(1, 2, 0)]) 1 3 = Inr [1, 4, 3]"
  by (simp add: square_cut_graph ref_shortest_path_def node_ids_def successors_def
                walk_cost_def edge_weight_def adj_values_def adj_def road_def)

lemma metrics_square_cut:
  "calculate_route_metrics (working_graph [square] 0 [(1, 2, 0)]) [1, 4, 3] = Inr (2, 2)"
  by (simp add: square_cut_graph calculate_route_metrics_def metrics_step_def select_edge_def
                adj_values_def adj_def road_def get_length_def speed_of_def get_highway_def)

lemma routes_square_cut:
  "find_routes ref_nearest_nodes ref_shortest_path [square] 0 0 0 1 1 [(1, 2, 0)] =
     ([square, working_graph [square] 0 [(1, 2, 0)]],
      Inr [\<lparr>r_name = ''Fastest Route'', r_path = [1, 4, 3], r_distance_km = 2,
             r_time_min = 2, r_color = ''#00c853'', r_type = ''fastest''\<rparr>])"
proof -
  have s: "find_nearest_node ref_nearest_nodes ([square] ! 0) 0 0 = Inr 1"
    by (simp add: nn_square_1)
  have t: "find_nearest_node ref_nearest_nodes ([square] ! 0) 1 1 = Inr 3"
    by (simp add: nn_square_3)
  have g: "(0::nat) < length [square]" by simp
  show ?thesis
    by (simp add: find_routes_resolved [OF g s t] primary_try_def sp_square_cut
                  metrics_square_cut)
qed

theorem routes_avoid_blocked_witness:
  "sp_contract ref_shortest_path \<and>
   snd (find_routes ref_nearest_nodes ref_shortest_path [square] 0 0 0 1 1 [(1, 2, 0)]) =
     Inr [\<lparr>r_name = ''Fastest Route'', r_path = [1, 4, 3], r_distance_km = 2,
            r_time_min = 2, r_color = ''#00c853'', r_type = ''fastest''\<rparr>] \<and>
   map fst (adj (working_graph [square] 0 [(1, 2, 0)]) 1 4) = [0] \<and>
   has_edge square 1 4 0 \<and> (1, 4, 0) \<notin> set [(1, 2, 0) :: edge_id]"
proof -
  let ?r = "\<lparr>r_name = ''Fastest Route'', r_path = [1, 4, 3], r_distance_km = 2,
            r_time_min = 2, r_color = ''#00c853'', r_type = ''fastest''\<rparr>"
  have res: "snd (find_routes ref_nearest_nodes ref_shortest_path [square] 0 0 0 1 1
                    [(1, 2, 0)]) = Inr [?r]"
    by (simp add: routes_square_cut)
  have keys: "map fst (adj (working_graph [square] 0 [(1, 2, 0)]) 1 4) = [0]"
    by (simp add: square_cut_graph adj_def)
  have "\<forall>k \<in> set (map fst (adj (working_graph [square] 0 [(1, 2, 0)]) 1 4)).
          has_edge ([square] ! 0) 1 4 k \<and> (1, 4, k) \<notin> set [(1, 2, 0) :: edge_id]"
    using routes_avoid_blocked [OF ref_sp_contract _ res, of ?r 1 4] by simp
  then have "has_edge square 1 4 0 \<and> (1, 4, 0) \<notin> set [(1, 2, 0) :: edge_id]"
    by (simp add: keys)
  with ref_sp_contract res keys show ?thesis by simp
qed

theorem short_path_single_route_witness:
  "sp_contract ref_shortest_path \<and>
   ref_shortest_path (working_graph [square] 0 [(1, 2, 0)]) 1 3 = Inr [1, 4, 3] \<and>
   find_routes ref_nearest_nodes ref_shortest_path [square] 0 0 0 1 1 [(1, 2, 0)] =
     ([square, working_graph [square] 0 [(1, 2, 0)]],
      Inr [\<lparr>r_name = ''Fastest Route'', r_path = [1, 4, 3], r_distance_km = 2,
             r_time_min = 2, r_color = ''#00c853'', r_type = ''fastest''\<rparr>])"
proof -
  have s: "find_nearest_node ref_nearest_nodes ([square] ! 0) 0 0 = Inr 1"
    by (simp add: nn_square_1)
  have t: "find_nearest_node ref_nearest_nodes ([square] ! 0) 1 1 = Inr 3"
    by (simp add: nn_square_3)
  have g: "(0::nat) < length [square]" by simp
  have l: "length [1, 4, 3 :: node] \<le> 10" by simp
  from short_path_single_route [OF ref_sp_contract g s t sp_square_cut l]
  have "find_routes ref_nearest_nodes ref_shortest_path [square] 0 0 0 1 1 [(1, 2, 0)] =
     ([square, working_graph [square] 0 [(1, 2, 0)]],
      Inr [\<lparr>r_name = ''Fastest Route'', r_path = [1, 4, 3], r_distance_km = 2,
             r_time_min = 2, r_color = ''#00c853'', r_type = ''fastest''\<rparr>])"
    by (auto simp: metrics_square_cut)
  with ref_sp_contract sp_square_cut show ?thesis by simp
qed

theorem no_path_empty_result_witness:
  "sp_contract ref_shortest_path \<and> nn_contract ref_nearest_nodes \<and>
   find_nearest_node ref_nearest_nodes square 0 0 = Inr 1 \<and>
   find_nearest_node ref_nearest_nodes square 1 1 = Inr 3 \<and>
   snd (find_routes ref_nearest_nodes ref_shortest_path [square] 0 0 0 1 1
          [(2, 3, 0), (3, 4, 0)]) = Inr []"
proof -
  have s: "find_nearest_node ref_nearest_nodes ([square] ! 0) 0 0 = Inr 1"
    by (simp add: nn_square_1)
  have t: "find_nearest_node ref_nearest_nodes ([square] ! 0) 1 1 = Inr 3"
    by (simp add: nn_square_3)
  have g: "(0::nat) < length [square]" by simp
  have tgt: "3 \<notin> set (map (\<lambda>e. fst (snd (fst e)))
                (g_edges (working_graph [square] 0 [(2, 3, 0), (3, 4, 0)])))"
    by (simp add: working_graph_eq without_def square_def)
  have none: "\<not> (\<exists>p. is_route (working_graph [square] 0 [(2, 3, 0), (3, 4, 0)]) 1 3 p)"
  proof
    assume "\<exists>p. is_route (working_graph [square] 0 [(2, 3, 0), (3, 4, 0)]) 1 3 p"
    then obtain p where "is_route (working_graph [square] 0 [(2, 3, 0), (3, 4, 0)]) 1 3 p"
      by blast
    then have "last p \<in> set (map (\<lambda>e. fst (snd (fst e)))
                (g_edges (working_graph [square] 0 [(2, 3, 0), (3, 4, 0)])))" and "last p = 3"
      using route_needs_incoming [of "working_graph [square] 0 [(2, 3, 0), (3, 4, 0)]" p]
      by (simp_all add: is_route_def)
    with tgt show False by simp
  qed
  from no_path_empty_result [OF ref_sp_contract ref_nn_contract g s t none]
  have "snd (find_routes ref_nearest_nodes ref_shortest_path [square] 0 0 0 1 1
          [(2, 3, 0), (3, 4, 0)]) = Inr []" .
  with ref_sp_contract ref_nn_contract nn_square_1 nn_square_3 show ?thesis by simp
qed


theorem find_routes_frame_witness:
  "fst (find_routes ref_nearest_nodes ref_shortest_path [square] 0 0 0 1 1 [(1, 2, 0)]) ! 0
     = square \<and>
   fst (find_routes ref_nearest_nodes ref_shortest_path [square] 0 0 0 1 1 [(1, 2, 0)])
     = [square, working_graph [square] 0 [(1, 2, 0)]] \<and>
   \<not> has_edge (working_graph [square] 0 [(1, 2, 0)]) 1 2 0 \<and> has_edge square 1 2 0"
proof -
  have g: "(0::nat) < length [square]" by simp
  from find_routes_frame [OF g, of ref_nearest_nodes ref_shortest_path 0 0 1 1 "[(1, 2, 0)]"]
  have "fst (find_routes ref_nearest_nodes ref_shortest_path [square] 0 0 0 1 1 [(1, 2, 0)]) ! 0
     = square" by simp
  moreover have "\<not> has_edge (working_graph [square] 0 [(1, 2, 0)]) 1 2 0 \<and> has_edge square 1 2 0"
    by (simp add: has_edge_working_graph) (simp add: has_edge_def square_def)
  ultimately show ?thesis by (simp add: routes_square_cut)
qed


lemma detour_working: "working_graph [detour] 0 [] = detour"
  by (simp add: working_graph_eq without_def)

lemma nn_detour_1: "find_nearest_node ref_nearest_nodes detour 0 1 = Inr 1"
  by (simp add: find_nearest_node_def ref_nearest_nodes_def detour_def dist2_def)

lemma nn_detour_11: "find_nearest_node ref_nearest_nodes detour 0 11 = Inr 11"
  by (simp add: find_nearest_node_def ref_nearest_nodes_def detour_def dist2_def)

lemma sp_detour: "ref_shortest_path detour 1 11 = Inr [1, 2, 3, 4, 5, 6, 7, 8, 9, 10, 11]"
  by (simp add: detour_def ref_shortest_path_def node_ids_def successors_def
                walk_cost_def edge_weight_def adj_values_def adj_def road_def)

lemma detour_alt:
  "alt_graph detour [1, 2, 3, 4, 5, 6, 7, 8, 9, 10, 11] =
     \<lparr>g_nodes = [(1, 1, 0), (2, 2, 0), (3, 3, 0), (4, 4, 0), (5, 5, 0), (6, 6, 0), (7, 7, 0),
                 (8, 8, 0), (9, 9, 0), (10, 10, 0), (11, 11, 0), (12, 6, 1)],
      g_edges = [((1, 2, 0), road (Some 100) ''residential''),
                 ((2, 3, 0), road (Some 100) ''residential''),
                 ((3, 4, 0), road (Some 100) ''residential''),
                 ((8, 9, 0), road (Some 100) ''residential''),
                 ((9, 10, 0), road (Some 100) ''residential''),
                 ((10, 11, 0), road (Some 100) ''residential''),
                 ((4, 12, 0), road (Some 500) ''primary''),
                 ((12, 8, 0), road (Some 500) ''primary'')]\<rparr>"
proof -
  have idx: "[length [1, 2, 3, 4, 5, 6, 7, 8, 9, 10, 11 :: node] div 3 ..<
              min (2 * length [1, 2, 3, 4, 5, 6, 7, 8, 9, 10, 11 :: node] div 3)
                  (length [1, 2, 3, 4, 5, 6, 7, 8, 9, 10, 11 :: node] - 1)] = [3, 4, 5, 6]"
    by (simp add: upt_rec)
  show ?thesis
    unfolding alt_graph_eq idx
    by (simp add: without_pair_def detour_def)
qed

lemma sp_detour_alt:
  "ref_shortest_path (alt_graph detour [1, 2, 3, 4, 5, 6, 7, 8, 9, 10, 11]) 1 11 =
     Inr [1, 2, 3, 4, 12, 8, 9, 10, 11]"
  by (simp add: detour_alt ref_shortest_path_def node_ids_def successors_def
                walk_cost_def edge_weight_def adj_values_def adj_def road_def)

lemma metrics_detour:
  "calculate_route_metrics detour [1, 2, 3, 4, 5, 6, 7, 8, 9, 10, 11] = Inr (1, 1)"
  by (simp add: detour_def calculate_route_metrics_def metrics_step_def select_edge_def
                adj_values_def adj_def road_def get_length_def speed_of_def get_highway_def)

lemma metrics_detour_alt:
  "calculate_route_metrics detour [1, 2, 3, 4, 12, 8, 9, 10, 11] = Inr (8 / 5, 27 / 20)"
  by (simp add: detour_def calculate_route_metrics_def metrics_step_def select_edge_def
                adj_values_def adj_def road_def get_length_def speed_of_def get_highway_def)

lemma metrics_detour_45: "calculate_route_metrics detour [4, 5] = Inr (1 / 10, 1 / 10)"
  by (simp add: detour_def calculate_route_metrics_def metrics_step_def select_edge_def
                adj_values_def adj_def road_def get_length_def speed_of_def get_highway_def)

lemma metrics_detour_alt_45:
  "calculate_route_metrics (alt_graph detour [1, 2, 3, 4, 5, 6, 7, 8, 9, 10, 11]) [4, 5]
     = Inl KeyError"
  by (simp add: detour_alt calculate_route_metrics_def metrics_step_def select_edge_def
                adj_values_def adj_def)

lemma probe_detour: "probe_search detour s t = Inr [1, 2, 3, 4, 5, 6, 7, 8, 9, 10, 11]"
  by (simp add: probe_search_def has_edge_def detour_def)

lemma probe_detour_alt:
  "probe_search (alt_graph detour [1, 2, 3, 4, 5, 6, 7, 8, 9, 10, 11]) s t = Inr [4, 5]"
  by (simp add: probe_search_def has_edge_def detour_alt)

theorem alternative_route_rule_witness:
  "sp_contract ref_shortest_path \<and>
   find_routes ref_nearest_nodes ref_shortest_path [detour] 0 0 1 0 11 [] =
     ([detour, detour, alt_graph detour detour_path],
      Inr [\<lparr>r_name = ''Fastest Route'', r_path = detour_path,
             r_distance_km = 1, r_time_min = 1, r_color = ''#00c853'', r_type = ''fastest''\<rparr>,
           \<lparr>r_name = ''Alternative Route'', r_path = [1, 2, 3, 4, 12, 8, 9, 10, 11],
             r_distance_km = 8 / 5, r_time_min = 27 / 20, r_color = ''#ffa726'',
             r_type = ''alternative''\<rparr>]) \<and>
   find_routes ref_nearest_nodes probe_search [detour] 0 0 1 0 11 [] =
     ([detour, detour, alt_graph detour detour_path],
      Inr [\<lparr>r_name = ''Fastest Route'', r_path = detour_path,
             r_distance_km = 1, r_time_min = 1, r_color = ''#00c853'', r_type = ''fastest''\<rparr>,
           \<lparr>r_name = ''Alternative Route'', r_path = [4, 5],
             r_distance_km = 1 / 10, r_time_min = 1 / 10, r_color = ''#ffa726'',
             r_type = ''alternative''\<rparr>]) \<and>
   calculate_route_metrics (alt_graph detour detour_path) [4, 5] = Inl KeyError \<and>
   find_routes ref_nearest_nodes (fixed_search detour_path) [detour] 0 0 1 0 11 [] =
     ([detour, detour, alt_graph detour detour_path],
      Inr [\<lparr>r_name = ''Fastest Route'', r_path = detour_path,
             r_distance_km = 1, r_time_min = 1, r_color = ''#00c853'', r_type = ''fastest''\<rparr>])"
proof -
  have s: "find_nearest_node ref_nearest_nodes ([detour] ! 0) 0 1 = Inr 1"
    by (simp add: nn_detour_1)
  have t: "find_nearest_node ref_nearest_nodes ([detour] ! 0) 0 11 = Inr 11"
    by (simp add: nn_detour_11)
  have g: "(0::nat) < length [detour]" by simp
  have l: "10 < length detour_path" by (simp add: detour_path_def)
  have m: "calculate_route_metrics (working_graph [detour] 0 []) detour_path = Inr (1, 1)"
    by (simp add: detour_working detour_path_def metrics_detour)
  have p1: "ref_shortest_path (working_graph [detour] 0 []) 1 11 = Inr detour_path"
    by (simp add: detour_working sp_detour detour_path_def)
  have p2: "probe_search (working_graph [detour] 0 []) 1 11 = Inr detour_path"
    by (simp add: detour_working probe_detour detour_path_def)
  have p3: "fixed_search detour_path (working_graph [detour] 0 []) 1 11 = Inr detour_path"
    by (simp add: fixed_search_def)
  from alternative_route_rule [where sp = ref_shortest_path and nn = ref_nearest_nodes and h = "[detour]"
         and graph = 0 and blocked = "[]", OF g s t p1 l] ref_sp_contract
  have "\<exists>d tm. calculate_route_metrics (working_graph [detour] 0 []) detour_path = Inr (d, tm)"
    by blast
  from alternative_route_rule [where sp = ref_shortest_path and nn = ref_nearest_nodes and h = "[detour]"
         and graph = 0 and blocked = "[]", OF g s t p1 l] m
  have r1: "find_routes ref_nearest_nodes ref_shortest_path [detour] 0 0 1 0 11 [] =
     ([detour, detour, alt_graph detour detour_path],
      Inr [\<lparr>r_name = ''Fastest Route'', r_path = detour_path,
             r_distance_km = 1, r_time_min = 1, r_color = ''#00c853'', r_type = ''fastest''\<rparr>,
           \<lparr>r_name = ''Alternative Route'', r_path = [1, 2, 3, 4, 12, 8, 9, 10, 11],
             r_distance_km = 8 / 5, r_time_min = 27 / 20, r_color = ''#ffa726'',
             r_type = ''alternative''\<rparr>])"
    by (simp add: detour_working detour_path_def sp_detour_alt metrics_detour_alt)
  from alternative_route_rule [where sp = probe_search and nn = ref_nearest_nodes and h = "[detour]"
         and graph = 0 and blocked = "[]", OF g s t p2 l] m
  have r2: "find_routes ref_nearest_nodes probe_search [detour] 0 0 1 0 11 [] =
     ([detour, detour, alt_graph detour detour_path],
      Inr [\<lparr>r_name = ''Fastest Route'', r_path = detour_path,
             r_distance_km = 1, r_time_min = 1, r_color = ''#00c853'', r_type = ''fastest''\<rparr>,
           \<lparr>r_name = ''Alternative Route'', r_path = [4, 5],
             r_distance_km = 1 / 10, r_time_min = 1 / 10, r_color = ''#ffa726'',
             r_type = ''alternative''\<rparr>])"
    by (simp add: detour_working detour_path_def probe_detour_alt metrics_detour_45)
  from alternative_route_rule [where sp = "fixed_search detour_path" and nn = ref_nearest_nodes and h = "[detour]"
         and graph = 0 and blocked = "[]", OF g s t p3 l] m
  have r3: "find_routes ref_nearest_nodes (fixed_search detour_path) [detour] 0 0 1 0 11 [] =
     ([detour, detour, alt_graph detour detour_path],
      Inr [\<lparr>r_name = ''Fastest Route'', r_path = detour_path,
             r_distance_km = 1, r_time_min = 1, r_color = ''#00c853'', r_type = ''fastest''\<rparr>])"
    by (simp add: detour_working fixed_search_def)
  have k: "calculate_route_metrics (alt_graph detour detour_path) [4, 5] = Inl KeyError"
    by (simp add: detour_path_def metrics_detour_alt_45)
  from ref_sp_contract r1 r2 k r3 show ?thesis by simp
qed


section \<open>Properties of the damage simulation\<close>

lemma node_attr_ok: "u \<in> node_ids g \<Longrightarrow> \<exists>p. node_attr g u = Inr p"
proof -
  assume "u \<in> node_ids g"
  then have "map_of (g_nodes g) u \<noteq> None"
    by (simp add: node_ids_def map_of_eq_None_iff)
  then show ?thesis by (auto simp: node_attr_def)
qed

lemma edge_distance_ok:
  assumes "fst e \<in> node_ids g" and "fst (snd e) \<in> node_ids g"
  shows "\<exists>d. edge_distance g e lat lon = Inr d"
proof -
  obtain u v k where e: "e = (u, v, k)" by (cases e)
  from assms obtain pu pv where "node_attr g u = Inr pu" and "node_attr g v = Inr pv"
    using node_attr_ok by (metis e fst_conv snd_conv)
  then show ?thesis by (simp add: e Let_def)
qed

lemma get_edge_geometry_ok:
  assumes "has_edge_id g e" and "fst e \<in> node_ids g" and "fst (snd e) \<in> node_ids g"
  shows "\<exists>c. get_edge_geometry g e = Inr c"
proof -
  obtain u v k where e: "e = (u, v, k)" by (cases e)
  from assms(2,3) obtain pu pv where n: "node_attr g u = Inr pu" "node_attr g v = Inr pv"
    using node_attr_ok by (metis e fst_conv snd_conv)
  from assms(1) have "map_of (g_edges g) (u, v, k) \<noteq> None"
    by (simp add: has_edge_id_def has_edge_def e map_of_eq_None_iff)
  then obtain d where "map_of (g_edges g) (u, v, k) = Some d" by auto
  then show ?thesis by (cases "e_geometry d") (simp_all add: e n)
qed

lemma nearby_loop_subset:
  "nearby_loop g blocked lat lon major acc = Inr nearby \<Longrightarrow>
   fst ` set nearby \<subseteq> fst ` set acc \<union> (set major - set blocked)"
proof (induction major arbitrary: acc)
  case Nil
  then show ?case by auto
next
  case (Cons edge rest)
  show ?case
  proof (cases "edge \<in> set blocked")
    case True
    with Cons.prems have "nearby_loop g blocked lat lon rest acc = Inr nearby" by simp
    from Cons.IH [OF this] show ?thesis by auto
  next
    case False
    with Cons.prems obtain dst where d: "edge_distance g edge lat lon = Inr dst"
      by (cases "edge_distance g edge lat lon") simp_all
    let ?acc = "if dst \<le> 8 / 1000 then acc @ [(edge, dst)] else acc"
    from Cons.prems False d have "nearby_loop g blocked lat lon rest ?acc = Inr nearby" by simp
    from Cons.IH [OF this] have "fst ` set nearby \<subseteq> fst ` set ?acc \<union> (set rest - set blocked)" .
    moreover have "fst ` set ?acc \<subseteq> fst ` set acc \<union> {edge}" by auto
    ultimately show ?thesis using False by auto
  qed
qed

lemma nearby_loop_ok:
  "\<forall>e \<in> set major. fst e \<in> node_ids g \<and> fst (snd e) \<in> node_ids g \<Longrightarrow>
   \<exists>nearby. nearby_loop g blocked lat lon major acc = Inr nearby"
proof (induction major arbitrary: acc)
  case Nil
  show ?case by simp
next
  case (Cons edge rest)
  from Cons.prems obtain dst where d: "edge_distance g edge lat lon = Inr dst"
    using edge_distance_ok [of edge g lat lon] by auto
  from Cons.prems have r: "\<forall>e \<in> set rest. fst e \<in> node_ids g \<and> fst (snd e) \<in> node_ids g"
    by simp
  show ?case using Cons.IH [OF r] by (simp add: d)
qed

lemma select_nearest_subset: "set (select_nearest k nearby) \<subseteq> fst ` set nearby"
proof -
  have "set (take k (sort_key snd nearby)) \<subseteq> set nearby"
    using set_take_subset [of k "sort_key snd nearby"] by simp
  then show ?thesis by (auto simp: select_nearest_def)
qed


lemma has_edge_id_rev: "has_edge_id g (rev_id (u, v, k)) = has_edge g v u k"
  by (simp add: has_edge_id_def)

lemma directions_Cons: "directions g (e # sel) = directions g [e] \<union> directions g sel"
  by (auto simp: directions_def)

lemma directions_Nil [simp]: "directions g [] = {}"
  by (simp add: directions_def)

lemma directions_single:
  "directions g [(u, v, k)] = (if has_edge g v u k then {(u, v, k), (v, u, k)} else {(u, v, k)})"
  by (auto simp: directions_def has_edge_id_def)

lemma block_edge_props:
  assumes "block_edge g e (st, c) = Inr (st', c')"
  shows "\<exists>new. blocked_edges st' = blocked_edges st @ new \<and> c' = c + length new \<and>
           distinct new \<and> set new = directions g [e] - set (blocked_edges st) \<and>
           impact_zones st' = impact_zones st"
proof -
  obtain u v k where e: "e = (u, v, k)" by (cases e)
  let ?B = "blocked_edges st"
  show ?thesis
  proof (cases "(u, v, k) \<in> set ?B")
    case True
    show ?thesis
    proof (cases "has_edge g v u k \<and> (v, u, k) \<notin> set ?B")
      case rev: True
      with True assms have "blocked_edges st' = ?B @ [(v, u, k)]" "c' = c + 1"
        "impact_zones st' = impact_zones st"
        by (auto simp: e)
      moreover have "set [(v, u, k)] = directions g [e] - set ?B"
        using True rev by (auto simp: e directions_single)
      ultimately show ?thesis by (intro exI [of _ "[(v, u, k)]"]) simp
    next
      case rev: False
      with True assms have "blocked_edges st' = ?B @ []" "c' = c"
        "impact_zones st' = impact_zones st"
        by (auto simp: e)
      moreover have "set [] = directions g [e] - set ?B"
        using True rev by (auto simp: e directions_single)
      ultimately show ?thesis by (intro exI [of _ "[]"]) simp
    qed
  next
    case False
    with assms obtain coords where geo: "get_edge_geometry g (u, v, k) = Inr coords"
      by (cases "get_edge_geometry g (u, v, k)") (simp_all add: e)
    let ?st1 = "st\<lparr>blocked_edges := ?B @ [(u, v, k)],
                   blocked_edges_coords := blocked_edges_coords st @ [coords]\<rparr>"
    show ?thesis
    proof (cases "has_edge g v u k \<and> (v, u, k) \<notin> set (?B @ [(u, v, k)])")
      case rev: True
      with False geo assms have "blocked_edges st' = ?B @ [(u, v, k), (v, u, k)]"
        "c' = c + 2" "impact_zones st' = impact_zones st"
        by (auto simp: e)
      moreover have "set [(u, v, k), (v, u, k)] = directions g [e] - set ?B"
        using False rev by (auto simp: e directions_single)
      moreover have "distinct [(u, v, k), (v, u, k)]" using rev by auto
      ultimately show ?thesis by (intro exI [of _ "[(u, v, k), (v, u, k)]"]) simp
    next
      case rev: False
      with False geo assms have "blocked_edges st' = ?B @ [(u, v, k)]"
        "c' = c + 1" "impact_zones st' = impact_zones st"
        by (auto simp: e)
      moreover have "set [(u, v, k)] = directions g [e] - set ?B"
        using False rev by (auto simp: e directions_single)
      ultimately show ?thesis by (intro exI [of _ "[(u, v, k)]"]) simp
    qed
  qed
qed

lemma block_selected_props:
  "block_selected g sel (st, c) = Inr (st', c') \<Longrightarrow>
   \<exists>new. blocked_edges st' = blocked_edges st @ new \<and> c' = c + length new \<and>
         distinct new \<and> set new = directions g sel - set (blocked_edges st) \<and>
         impact_zones st' = impact_zones st"
proof (induction sel arbitrary: st c)
  case Nil
  then show ?case by simp
next
  case (Cons e sel)
  from Cons.prems obtain st1 c1 where
    one: "block_edge g e (st, c) = Inr (st1, c1)" and
    rest: "block_selected g sel (st1, c1) = Inr (st', c')"
    by (cases "block_edge g e (st, c)") auto
  from block_edge_props [OF one] obtain n1 where
    n1: "blocked_edges st1 = blocked_edges st @ n1" "c1 = c + length n1" "distinct n1"
        "set n1 = directions g [e] - set (blocked_edges st)"
        "impact_zones st1 = impact_zones st"
    by blast
  from Cons.IH [OF rest] obtain n2 where
    n2: "blocked_edges st' = blocked_edges st1 @ n2" "c' = c1 + length n2" "distinct n2"
        "set n2 = directions g sel - set (blocked_edges st1)"
        "impact_zones st' = impact_zones st1"
    by blast
  have a: "blocked_edges st' = blocked_edges st @ (n1 @ n2)" using n1(1) n2(1) by simp
  have b: "c' = c + length (n1 @ n2)" using n1(2) n2(2) by simp
  have c: "distinct (n1 @ n2)" using n1(1,3) n2(3,4) by auto
  have d: "set (n1 @ n2) = directions g (e # sel) - set (blocked_edges st)"
    using n1(1,4) n2(4) by (subst directions_Cons) auto
  have z: "impact_zones st' = impact_zones st" using n1(5) n2(5) by simp
  from a b c d z show ?case by blast
qed

lemma block_edge_ok:
  assumes "has_edge_id g e" and "fst e \<in> node_ids g" and "fst (snd e) \<in> node_ids g"
  shows "\<exists>s'. block_edge g e s = Inr s'"
proof -
  obtain u v k where e: "e = (u, v, k)" by (cases e)
  obtain st c where s: "s = (st, c)" by (cases s)
  from get_edge_geometry_ok [OF assms] obtain coords where
    "get_edge_geometry g (u, v, k) = Inr coords" by (auto simp: e)
  then show ?thesis by (simp add: e s)
qed

lemma block_selected_ok:
  "\<forall>e \<in> set sel. has_edge_id g e \<and> fst e \<in> node_ids g \<and> fst (snd e) \<in> node_ids g \<Longrightarrow>
   \<exists>s'. block_selected g sel s = Inr s'"
proof (induction sel arbitrary: s)
  case Nil
  show ?case by simp
next
  case (Cons e sel)
  from Cons.prems obtain s1 where s1: "block_edge g e s = Inr s1"
    using block_edge_ok [of g e s] by auto
  from Cons.prems have "\<forall>e \<in> set sel. has_edge_id g e \<and> fst e \<in> node_ids g \<and> fst (snd e) \<in> node_ids g"
    by simp
  from Cons.IH [OF this, of s1] show ?case by (simp add: s1)
qed

lemma process_impact_props:
  assumes "process_impact g major ((lat, lon), k) st = Inr st'"
  shows "\<exists>nearby new.
           nearby_loop g (blocked_edges st) lat lon major [] = Inr nearby \<and>
           set (select_nearest k nearby) \<subseteq> set major - set (blocked_edges st) \<and>
           blocked_edges st' = blocked_edges st @ new \<and> distinct new \<and>
           set new = directions g (select_nearest k nearby) - set (blocked_edges st) \<and>
           impact_zones st' = impact_zones st @
             [\<lparr>z_lat = lat, z_lon = lon, roads_damaged = length new\<rparr>]"
proof -
  from assms obtain nearby where
    nb: "nearby_loop g (blocked_edges st) lat lon major [] = Inr nearby"
    by (cases "nearby_loop g (blocked_edges st) lat lon major []") simp_all
  from assms nb obtain st1 c1 where
    bs: "block_selected g (select_nearest k nearby) (st, 0) = Inr (st1, c1)" and
    st': "st' = st1\<lparr>impact_zones := impact_zones st1 @
                  [\<lparr>z_lat = lat, z_lon = lon, roads_damaged = c1\<rparr>]\<rparr>"
    by (cases "block_selected g (select_nearest k nearby) (st, 0)") auto
  from block_selected_props [OF bs] obtain new where
    new: "blocked_edges st1 = blocked_edges st @ new" "c1 = length new" "distinct new"
         "set new = directions g (select_nearest k nearby) - set (blocked_edges st)"
         "impact_zones st1 = impact_zones st"
    by auto
  have sub: "set (select_nearest k nearby) \<subseteq> set major - set (blocked_edges st)"
    using select_nearest_subset [of k nearby] nearby_loop_subset [OF nb] by auto
  from nb sub new st' show ?thesis by auto
qed

lemma process_impact_ok:
  assumes "major_ok g major"
  shows "\<exists>st'. process_impact g major ((lat, lon), k) st = Inr st'"
proof -
  from assms have nodes: "\<forall>e \<in> set major. fst e \<in> node_ids g \<and> fst (snd e) \<in> node_ids g"
    by (simp add: major_ok_def)
  from nearby_loop_ok [OF nodes] obtain nearby where
    nb: "nearby_loop g (blocked_edges st) lat lon major [] = Inr nearby" by blast
  have "set (select_nearest k nearby) \<subseteq> set major"
    using select_nearest_subset [of k nearby] nearby_loop_subset [OF nb] by auto
  with assms have "\<forall>e \<in> set (select_nearest k nearby).
      has_edge_id g e \<and> fst e \<in> node_ids g \<and> fst (snd e) \<in> node_ids g"
    by (auto simp: major_ok_def)
  from block_selected_ok [OF this, of "(st, 0)"] obtain s' where
    "block_selected g (select_nearest k nearby) (st, 0) = Inr s'" by blast
  then show ?thesis by (cases s') (simp add: nb)
qed

lemma impacts_loop_props:
  "impacts_loop g major imps st = Inr st' \<Longrightarrow> distinct (blocked_edges st) \<Longrightarrow>
   distinct (blocked_edges st') \<and>
   (\<exists>zones. impact_zones st' = impact_zones st @ zones \<and> length zones = length imps \<and>
      length (blocked_edges st') = length (blocked_edges st) + sum_list (map roads_damaged zones))"
proof (induction imps arbitrary: st)
  case Nil
  then show ?case by simp
next
  case (Cons imp imps)
  obtain lat lon k where imp: "imp = ((lat, lon), k)" by (cases imp) auto
  from Cons.prems(1) obtain st1 where
    one: "process_impact g major ((lat, lon), k) st = Inr st1" and
    rest: "impacts_loop g major imps st1 = Inr st'"
    by (cases "process_impact g major ((lat, lon), k) st") (simp_all add: imp)
  from process_impact_props [OF one] obtain new where
    new: "blocked_edges st1 = blocked_edges st @ new" "distinct new"
         "set new \<inter> set (blocked_edges st) = {}"
         "impact_zones st1 = impact_zones st @
             [\<lparr>z_lat = lat, z_lon = lon, roads_damaged = length new\<rparr>]"
    by auto
  have d1: "distinct (blocked_edges st1)" using new(1,2,3) Cons.prems(2) by auto
  from Cons.IH [OF rest d1] obtain zones where
    z: "distinct (blocked_edges st')" "impact_zones st' = impact_zones st1 @ zones"
       "length zones = length imps"
       "length (blocked_edges st') = length (blocked_edges st1) + sum_list (map roads_damaged zones)"
    by blast
  let ?zs = "\<lparr>z_lat = lat, z_lon = lon, roads_damaged = length new\<rparr> # zones"
  have "impact_zones st' = impact_zones st @ ?zs" using z(2) new(4) by simp
  moreover have "length ?zs = length (imp # imps)" using z(3) by simp
  moreover have "length (blocked_edges st') =
      length (blocked_edges st) + sum_list (map roads_damaged ?zs)"
    using z(4) new(1) by simp
  ultimately show ?case using z(1) by blast
qed

lemma block_roads_props:
  assumes "block_roads g major impacts st = Inr st'" and "major \<noteq> []"
  shows "distinct (blocked_edges st') \<and> length (impact_zones st') = length impacts \<and>
         sum_list (map roads_damaged (impact_zones st')) = length (blocked_edges st')"
proof -
  let ?st0 = "st\<lparr>blocked_edges := [], blocked_edges_coords := [], impact_zones := []\<rparr>"
  from assms have "impacts_loop g major impacts ?st0 = Inr st'"
    by (simp add: block_roads_def)
  from impacts_loop_props [OF this] show ?thesis by auto
qed

text \<open>
  Claim C6. The record of an impact carries as damage count the number of edge directions the
  impact adds to the blocked list: the selected edges and their reverses in the network, less
  those already blocked, each once. The selected edges are major edges not yet blocked, so an
  edge blocked by an earlier impact is no candidate; over a whole run the blocked list holds
  no edge twice and the counts of the impacts add up to its length. With major edges that are
  edges of the network between known nodes, every impact is processed.
\<close>

theorem impact_damage_count:
  "(\<forall>st'. process_impact g major ((lat, lon), k) st = Inr st' \<longrightarrow>
      (\<exists>nearby new.
           nearby_loop g (blocked_edges st) lat lon major [] = Inr nearby \<and>
           set (select_nearest k nearby) \<subseteq> set major - set (blocked_edges st) \<and>
           blocked_edges st' = blocked_edges st @ new \<and> distinct new \<and>
           set new = directions g (select_nearest k nearby) - set (blocked_edges st) \<and>
           impact_zones st' = impact_zones st @
             [\<lparr>z_lat = lat, z_lon = lon, roads_damaged = length new\<rparr>]))
   \<and> (major_ok g major \<longrightarrow> (\<exists>st'. process_impact g major ((lat, lon), k) st = Inr st'))
   \<and> (\<forall>st'. major \<noteq> [] \<and> block_roads g major impacts st = Inr st' \<longrightarrow>
         distinct (blocked_edges st') \<and> length (impact_zones st') = length impacts \<and>
         sum_list (map roads_damaged (impact_zones st')) = length (blocked_edges st'))"
  using process_impact_props [of g major lat lon k st] process_impact_ok [of g major lat lon k st]
        block_roads_props [of g major impacts st]
  by blast


lemma sqrt_le_const: "0 \<le> y \<Longrightarrow> (sqrt x \<le> y) = (x \<le> y\<^sup>2)"
proof -
  assume "0 \<le> y"
  then have "y = sqrt (y\<^sup>2)" by simp
  then have "(sqrt x \<le> y) = (sqrt x \<le> sqrt (y\<^sup>2))" by simp
  then show ?thesis by (simp only: real_sqrt_le_iff)
qed

lemma square_major_ok: "major_ok square square_major"
  by (simp add: major_ok_def square_major_def has_edge_id_def has_edge_def node_ids_def
                square_def)

lemma square_nearby:
  "nearby_loop square bl 0 (1 / 2) square_major [] =
     Inr (filter (\<lambda>p. fst p \<notin> set bl) [((1, 2, 0), 0), ((2, 1, 0), 0)])"
  by (simp add: square_major_def node_attr_def square_def sqrt_le_const power2_eq_square)

lemma square_impact:
  "process_impact square square_major ((0, 1 / 2), 2) fresh_state =
     Inr \<lparr>blocked_edges = [(1, 2, 0), (2, 1, 0)],
          blocked_edges_coords = [[(0, 0), (0, 1)]],
          impact_zones = [\<lparr>z_lat = 0, z_lon = 1 / 2, roads_damaged = 2\<rparr>]\<rparr>"
  by (simp add: square_nearby fresh_state_def select_nearest_def)
     (simp add: square_def node_attr_def has_edge_def road_def)

lemma square_batch:
  "block_roads square square_major [((0, 1 / 2), 2), ((0, 1 / 2), 3)] fresh_state =
     Inr \<lparr>blocked_edges = [(1, 2, 0), (2, 1, 0)],
          blocked_edges_coords = [[(0, 0), (0, 1)]],
          impact_zones = [\<lparr>z_lat = 0, z_lon = 1 / 2, roads_damaged = 2\<rparr>,
                          \<lparr>z_lat = 0, z_lon = 1 / 2, roads_damaged = 0\<rparr>]\<rparr>"
proof -
  have "block_roads square square_major [((0, 1 / 2), 2), ((0, 1 / 2), 3)] fresh_state =
        impacts_loop square square_major [((0, 1 / 2), 2), ((0, 1 / 2), 3)] fresh_state"
    by (simp add: block_roads_def square_major_def fresh_state_def)
  also have "\<dots> = impacts_loop square square_major [((0, 1 / 2), 3)]
          \<lparr>blocked_edges = [(1, 2, 0), (2, 1, 0)],
          blocked_edges_coords = [[(0, 0), (0, 1)]],
          impact_zones = [\<lparr>z_lat = 0, z_lon = 1 / 2, roads_damaged = 2\<rparr>]\<rparr>"
    by (simp only: impacts_loop.simps square_impact sum.case)
  also have "\<dots> = Inr \<lparr>blocked_edges = [(1, 2, 0), (2, 1, 0)],
          blocked_edges_coords = [[(0, 0), (0, 1)]],
          impact_zones = [\<lparr>z_lat = 0, z_lon = 1 / 2, roads_damaged = 2\<rparr>,
                          \<lparr>z_lat = 0, z_lon = 1 / 2, roads_damaged = 0\<rparr>]\<rparr>"
    by (simp add: square_nearby select_nearest_def)
  finally show ?thesis .
qed

theorem impact_damage_count_witness:
  "major_ok square square_major \<and> square_major \<noteq> [] \<and>
   process_impact square square_major ((0, 1 / 2), 2) fresh_state =
     Inr \<lparr>blocked_edges = [(1, 2, 0), (2, 1, 0)],
          blocked_edges_coords = [[(0, 0), (0, 1)]],
          impact_zones = [\<lparr>z_lat = 0, z_lon = 1 / 2, roads_damaged = 2\<rparr>]\<rparr> \<and>
   directions square [(1, 2, 0), (2, 1, 0)] - set (blocked_edges fresh_state) =
     {(1, 2, 0), (2, 1, 0)} \<and>
   block_roads square square_major [((0, 1 / 2), 2), ((0, 1 / 2), 3)] fresh_state =
     Inr \<lparr>blocked_edges = [(1, 2, 0), (2, 1, 0)],
          blocked_edges_coords = [[(0, 0), (0, 1)]],
          impact_zones = [\<lparr>z_lat = 0, z_lon = 1 / 2, roads_damaged = 2\<rparr>,
                          \<lparr>z_lat = 0, z_lon = 1 / 2, roads_damaged = 0\<rparr>]\<rparr>"
proof -
  let ?S = "\<lparr>blocked_edges = [(1, 2, 0), (2, 1, 0)],
          blocked_edges_coords = [[(0, 0), (0, 1)]],
          impact_zones = [\<lparr>z_lat = 0, z_lon = 1 / 2, roads_damaged = 2\<rparr>]\<rparr>"
  have ne: "square_major \<noteq> []" by (simp add: square_major_def)
  have sel: "select_nearest 2 [((1, 2, 0), 0), ((2, 1, 0), 0 :: real)] = [(1, 2, 0), (2, 1, 0)]"
    by (simp add: select_nearest_def)
  from impact_damage_count [of square square_major 0 "1 / 2" 2 fresh_state
         "[((0, 1 / 2), 2), ((0, 1 / 2), 3)]"] square_impact
  obtain nearby new where
    a: "nearby_loop square (blocked_edges fresh_state) 0 (1 / 2) square_major [] = Inr nearby"
    and b: "blocked_edges ?S = blocked_edges fresh_state @ new"
    and c: "set new = directions square (select_nearest 2 nearby) - set (blocked_edges fresh_state)"
    by blast
  from a have nb: "nearby = [((1, 2, 0), 0), ((2, 1, 0), 0)]"
    by (simp add: square_nearby fresh_state_def)
  from b have new: "new = [(1, 2, 0), (2, 1, 0)]" by (simp add: fresh_state_def)
  have "directions square (select_nearest 2 nearby) - set (blocked_edges fresh_state) = set new"
    using c by simp
  then have "directions square [(1, 2, 0), (2, 1, 0)] - set (blocked_edges fresh_state) =
     {(1, 2, 0), (2, 1, 0)}"
    unfolding nb sel new by simp
  with square_major_ok ne square_impact square_batch show ?thesis by simp
qed


end
